theory Spec2Isabelle
  imports Main "HOL-Library.Word"
begin

section \<open>Data model\<close>

text \<open>
  The module works on numpy arrays. An array is modelled as a nested list in C order:
  the board and the bomb countdowns are two-dimensional integer arrays, a rendered
  image is a three-dimensional uint8 array (pixel rows, pixel columns, channels) and the
  sprite atlas is a four-dimensional uint8 array (sprite, row, column, channel).
  A nested list cannot record the extents of the axes inside an axis of extent 0, so
  the theorems below state the shapes they rely on as hypotheses.

  The exceptions that the code or the libraries under it raise are values of
  \<open>py_error\<close>; a function that can raise returns \<open>py_error + 'a\<close>.
\<close>

datatype py_error = IndexError | ValueError | TypeError | KeyError | ZeroDivisionError | ResetNeeded

type_synonym pixel = "8 word list"
type_synonym image = "pixel list list"
type_synonym atlas = "image list"
type_synonym grid = "int list list"

text \<open>The observation dictionary of one agent. The key \<open>my_sprite\<close> is not part of
  the simulator's observation: \<open>redraw\<close> adds it, so it may be absent.\<close>

record observation =
  board :: grid
  bomb_life :: grid
  position :: "int \<times> int"
  alive :: "int list"
  blast_strength :: int
  ammo :: int
  can_kick :: int
  my_sprite :: "int option"

text \<open>\<open>KEEP_MY_AGENT_SPRITE = constants.Item.Agent1.value #11\<close>\<close>

definition KEEP_MY_AGENT_SPRITE :: int where
  "KEEP_MY_AGENT_SPRITE = 11"

section \<open>numpy primitives\<close>

text \<open>Sequencing of computations that may raise: the first error wins.\<close>

fun mapM :: "('a \<Rightarrow> py_error + 'b) \<Rightarrow> 'a list \<Rightarrow> py_error + 'b list" where
  "mapM f [] = Inr []"
| "mapM f (x # xs) =
     (case f x of
        Inl e \<Rightarrow> Inl e
      | Inr y \<Rightarrow> (case mapM f xs of Inl e \<Rightarrow> Inl e | Inr ys \<Rightarrow> Inr (y # ys)))"

fun foldM :: "('s \<Rightarrow> 'a \<Rightarrow> py_error + 's) \<Rightarrow> 's \<Rightarrow> 'a list \<Rightarrow> py_error + 's" where
  "foldM f s [] = Inr s"
| "foldM f s (x # xs) = (case f s x of Inl e \<Rightarrow> Inl e | Inr s' \<Rightarrow> foldM f s' xs)"

text \<open>An integer index into an axis of extent \<open>n\<close>: a negative index counts from the
  end, an index outside \<open>[-n, n)\<close> raises IndexError.\<close>

definition norm_index :: "nat \<Rightarrow> int \<Rightarrow> py_error + nat" where
  "norm_index n i =
     (if 0 \<le> i \<and> i < int n then Inr (nat i)
      else if - int n \<le> i \<and> i < 0 then Inr (nat (int n + i))
      else Inl IndexError)"

definition getitem :: "'a list \<Rightarrow> int \<Rightarrow> py_error + 'a" where
  "getitem xs i = (case norm_index (length xs) i of Inl e \<Rightarrow> Inl e | Inr k \<Rightarrow> Inr (xs ! k))"

text \<open>\<open>a.shape[1]\<close> of an array whose first axis is not empty.\<close>

definition shape1 :: "'a list list \<Rightarrow> nat" where
  "shape1 a = (case a of [] \<Rightarrow> 0 | x # _ \<Rightarrow> length x)"

text \<open>\<open>resources[board]\<close>: the gather of one sprite per cell, of shape
  (rows, cols, sprite rows, sprite cols, channels).\<close>

definition gather :: "'a list \<Rightarrow> grid \<Rightarrow> py_error + 'a list list" where
  "gather resources brd = mapM (mapM (getitem resources)) brd"

text \<open>\<open>.transpose(0, 2, 1, 3, 4)\<close> on an array of shape (R, C, h, w, c): the result has
  shape (R, h, C, w, c) and its entry (r, i, c) is the entry (r, c, i) of the argument.
  \<open>h\<close> is the extent of the third axis.\<close>

definition transpose_02134 :: "nat \<Rightarrow> 'a list list list \<Rightarrow> 'a list list list" where
  "transpose_02134 h a = map (\<lambda>row. map (\<lambda>i. map (\<lambda>sprite. sprite ! i) row) [0..<h]) a"

text \<open>\<open>.reshape(R*h, C*w, c)\<close> on an array of shape (R, h, C, w, c). In C order a
  reshape that merges adjacent axes concatenates along them: the first two axes merge
  into the pixel rows, the next two into the pixel columns.\<close>

definition reshape_merge :: "'a list list list list \<Rightarrow> 'a list list" where
  "reshape_merge a = concat (map (map concat) a)"

section \<open>Board compositor\<close>

definition render_preprocessed_board :: "grid \<Rightarrow> 'a list list list \<Rightarrow> py_error + 'a list list" where
  "render_preprocessed_board brd resources =
     (case gather resources brd of
        Inl e \<Rightarrow> Inl e
      | Inr inter1 \<Rightarrow>
          let inter2 = transpose_02134 (shape1 resources) inter1;
              inter3 = reshape_merge inter2
          in Inr inter3)"

section \<open>Board preprocessor\<close>

text \<open>\<open>__has_players = lambda ppboard: (ppboard >= 9) & (ppboard <= 13)\<close>, the test of
  one cell; the source applies it to every cell of the array at once.\<close>

definition has_players :: "int \<Rightarrow> bool" where
  "has_players v = (9 \<le> v \<and> v \<le> 13)"

text \<open>
  Line 115,
  \<open>board[(bombs != 0) & ~__has_players(board)] = bombs[(bombs != 0) & ~__has_players(board)] + len(constants.FILE_NAMES)\<close>.
  Both masks are computed from the board before the assignment. \<open>K\<close> is
  \<open>len(constants.FILE_NAMES)\<close>, a constant of the simulator package. The simulator gives
  both arrays the shape of the board; arrays of different shapes are reported as
  ValueError here (numpy's broadcasting of the mask is not modelled).
\<close>

definition bomb_overlay :: "nat \<Rightarrow> grid \<Rightarrow> grid \<Rightarrow> py_error + grid" where
  "bomb_overlay K brd bombs =
     (if map length brd \<noteq> map length bombs then Inl ValueError
      else Inr (map2 (\<lambda>brow lrow.
                  map2 (\<lambda>v b. if b \<noteq> 0 \<and> \<not> has_players v then b + int K else v) brow lrow)
                brd bombs))"

text \<open>Lines 119-120: \<open>if np.any(board == KEEP_MY_AGENT_SPRITE): board[board == KEEP_MY_AGENT_SPRITE] = my_idx\<close>\<close>

definition substitute_other :: "int \<Rightarrow> grid \<Rightarrow> grid" where
  "substitute_other my_idx brd =
     (if list_ex (list_ex (\<lambda>v. v = KEEP_MY_AGENT_SPRITE)) brd
      then map (map (\<lambda>v. if v = KEEP_MY_AGENT_SPRITE then my_idx else v)) brd
      else brd)"

text \<open>\<open>a[p] = v\<close> for a two-dimensional array and a tuple \<open>p\<close> of two integers.\<close>

definition setitem2 :: "'a list list \<Rightarrow> int \<times> int \<Rightarrow> 'a \<Rightarrow> py_error + 'a list list" where
  "setitem2 a p v =
     (case norm_index (length a) (fst p) of
        Inl e \<Rightarrow> Inl e
      | Inr r \<Rightarrow>
          (case norm_index (length (a ! r)) (snd p) of
             Inl e \<Rightarrow> Inl e
           | Inr c \<Rightarrow> Inr (a[r := (a ! r)[c := v]])))"

definition preprocess_board :: "nat \<Rightarrow> observation \<Rightarrow> py_error + grid" where
  "preprocess_board K obs =
     (case bomb_overlay K (board obs) (bomb_life obs) of
        Inl e \<Rightarrow> Inl e
      | Inr board1 \<Rightarrow>
          (case my_sprite obs of
             None \<Rightarrow> Inl KeyError
           | Some my_idx \<Rightarrow>
               let board2 = substitute_other my_idx board1
               in if my_idx \<in> set (alive obs)
                  then setitem2 board2 (position obs) KEEP_MY_AGENT_SPRITE
                  else Inr board2))"

section \<open>Bomb-marker overlay\<close>

definition offset :: "int \<Rightarrow> int \<Rightarrow> int" where
  "offset x scale = x * scale"

definition half_texture :: "int \<Rightarrow> int" where
  "half_texture scale = scale div 2"

definition quarter_texture :: "int \<Rightarrow> int" where
  "quarter_texture scale = scale div 4 + scale div 8"

definition get_bomb :: "'a list \<Rightarrow> nat \<Rightarrow> int \<Rightarrow> py_error + 'a" where
  "get_bomb res K state = getitem res (int K + state)"

text \<open>\<open>np.transpose(np.nonzero(__has_players(ppboard))).tolist()\<close>: the coordinates of
  the player cells, in row-major order.\<close>

definition where_agent :: "grid \<Rightarrow> (nat \<times> nat) list" where
  "where_agent ppboard =
     concat (map (\<lambda>r. map (\<lambda>c. (r, c))
                        (filter (\<lambda>c. has_players (ppboard ! r ! c)) [0..<length (ppboard ! r)]))
                 [0..<length ppboard])"

text \<open>One bound of a slice with step 1 over an axis of extent \<open>n\<close>: a negative bound
  counts from the end, and every bound is clipped to the axis. The slice \<open>a:b\<close> selects
  the indices from \<open>slice_bound n a\<close> up to, not including, \<open>slice_bound n b\<close>.\<close>

definition slice_bound :: "nat \<Rightarrow> int \<Rightarrow> nat" where
  "slice_bound n x = (if x < 0 then nat (max 0 (int n + x)) else min n (nat x))"

text \<open>Broadcasting of one axis of the assigned value to the extent \<open>n\<close> of the target:
  equal extents match, an extent of 1 is repeated, anything else raises ValueError.\<close>

definition broadcast_axis :: "nat \<Rightarrow> 'a list \<Rightarrow> py_error + 'a list" where
  "broadcast_axis n xs =
     (if length xs = n then Inr xs
      else if length xs = 1 then Inr (replicate n (hd xs))
      else Inl ValueError)"

definition broadcast3 :: "nat \<Rightarrow> nat \<Rightarrow> nat \<Rightarrow> 'a list list list \<Rightarrow> py_error + 'a list list list" where
  "broadcast3 lh lw lc v =
     (case mapM (\<lambda>row. case mapM (broadcast_axis lc) row of
                          Inl e \<Rightarrow> Inl e
                        | Inr row' \<Rightarrow> broadcast_axis lw row') v of
        Inl e \<Rightarrow> Inl e
      | Inr v' \<Rightarrow> broadcast_axis lh v')"

text \<open>\<open>a[r0:r1, c0:c1, :] = v\<close> for three-dimensional arrays \<open>a\<close> and \<open>v\<close>.\<close>

definition assign_block :: "'a list list list \<Rightarrow> int \<Rightarrow> int \<Rightarrow> int \<Rightarrow> int \<Rightarrow> 'a list list list
    \<Rightarrow> py_error + 'a list list list" where
  "assign_block a r0 r1 c0 c1 v =
     (let rlo = slice_bound (length a) r0; rhi = slice_bound (length a) r1;
          clo = slice_bound (shape1 a) c0; chi = slice_bound (shape1 a) c1
      in case broadcast3 (rhi - rlo) (chi - clo) (shape1 (concat a)) v of
           Inl e \<Rightarrow> Inl e
         | Inr v' \<Rightarrow>
             Inr (map (\<lambda>i. if rlo \<le> i \<and> i < rhi
                           then map (\<lambda>j. if clo \<le> j \<and> j < chi then v' ! (i - rlo) ! (j - clo)
                                         else a ! i ! j)
                                    [0..<length (a ! i)]
                           else a ! i)
                      [0..<length a]))"

text \<open>The body of the loop over the players, lines 136-139.\<close>

definition draw_bar :: "'a list list list list \<Rightarrow> nat \<Rightarrow> grid \<Rightarrow> 'a list list list \<Rightarrow> nat \<times> nat
    \<Rightarrow> py_error + 'a list list list" where
  "draw_bar res K bombs rendered_board player =
     (let scale = int (shape1 res); r = int (fst player); c = int (snd player)
      in case getitem bombs r of
           Inl e \<Rightarrow> Inl e
         | Inr bombs_row \<Rightarrow>
             (case getitem bombs_row c of
                Inl e \<Rightarrow> Inl e
              | Inr b \<Rightarrow>
                  if b \<noteq> 0
                  then (case get_bomb res K b of
                          Inl e \<Rightarrow> Inl e
                        | Inr sprite \<Rightarrow>
                            assign_block rendered_board
                              (offset r scale + half_texture scale + quarter_texture scale)
                              (offset (r + 1) scale)
                              (offset c scale) (offset (c + 1) scale)
                              (drop (slice_bound (length sprite)
                                       (half_texture scale + quarter_texture scale)) sprite))
                  else Inr rendered_board))"

text \<open>\<open>board_size = rendered_board.shape[0]//scale\<close> is not used afterwards, but the
  division raises for sprites of height 0.\<close>

definition postprocess_board :: "'a list list list \<Rightarrow> 'a list list list list \<Rightarrow> nat \<Rightarrow> grid \<Rightarrow> grid
    \<Rightarrow> py_error + 'a list list list" where
  "postprocess_board rendered_board res K bombs ppboard =
     (if shape1 res = 0 then Inl ZeroDivisionError
      else foldM (draw_bar res K bombs) rendered_board (where_agent ppboard))"

section \<open>Dashboard compositor\<close>

text \<open>The third argument of \<open>min\<close> on lines 157 and 159:
  \<open>board_size-(1 if board_size%2==1 else 0)\<close> for the blast strength and
  \<open>board_size-(1 if board_size%2==1 else 2)\<close> for the ammo.\<close>

definition bs_board_bound :: "int \<Rightarrow> int" where
  "bs_board_bound board_size = board_size - (if board_size mod 2 = 1 then 1 else 0)"

definition ammo_board_bound :: "int \<Rightarrow> int" where
  "ammo_board_bound board_size = board_size - (if board_size mod 2 = 1 then 1 else 2)"

text \<open>\<open>B\<close> is \<open>len(constants.BOMB_FILE_NAMES)\<close>, a constant of the simulator package.\<close>

definition clamped_blast_strength :: "nat \<Rightarrow> observation \<Rightarrow> int \<Rightarrow> int" where
  "clamped_blast_strength B obs board_size =
     min (blast_strength obs) (min (int B) (bs_board_bound board_size))"

definition clamped_ammo :: "nat \<Rightarrow> observation \<Rightarrow> int \<Rightarrow> int" where
  "clamped_ammo B obs board_size =
     min (ammo obs) (min (int B) (ammo_board_bound board_size))"

text \<open>\<open>xs[a:b] = v\<close> for a scalar \<open>v\<close>.\<close>

definition fill_slice :: "'a list \<Rightarrow> int \<Rightarrow> int \<Rightarrow> 'a \<Rightarrow> 'a list" where
  "fill_slice xs a b v =
     (let lo = slice_bound (length xs) a; hi = slice_bound (length xs) b
      in map (\<lambda>j. if lo \<le> j \<and> j < hi then v else xs ! j) [0..<length xs])"

definition setitem :: "'a list \<Rightarrow> int \<Rightarrow> 'a \<Rightarrow> py_error + 'a list" where
  "setitem xs i v = (case norm_index (length xs) i of Inl e \<Rightarrow> Inl e | Inr k \<Rightarrow> Inr (xs[k := v]))"

text \<open>Lines 154-165: the one-row array of sprite codes. \<open>np.zeros\<close> raises ValueError
  for a negative extent. The assignment through \<open>conversion_array[:, ::-1]\<close> writes
  into the row through a reversed view.\<close>

definition conversion_array :: "nat \<Rightarrow> observation \<Rightarrow> int \<Rightarrow> py_error + grid" where
  "conversion_array B obs board_size =
     (if board_size < 0 then Inl ValueError
      else
        let bs_sprite = 4; ammo_sprite = 3;
            row0 = replicate (nat board_size) (- 1);
            bs = clamped_blast_strength B obs board_size;
            am = clamped_ammo B obs board_size;
            row1 = fill_slice row0 0 ((bs + 1) div 2) bs_sprite;
            row2 = rev (fill_slice (rev row1) 0 ((am + 1) div 2) ammo_sprite)
        in case setitem row2 (board_size div 2) (if can_kick obs > 0 then 8 else - 1) of
             Inl e \<Rightarrow> Inl e
           | Inr row3 \<Rightarrow> Inr [row3])"

text \<open>\<open>a[:, c0:c1, :] = 0\<close>\<close>

definition zero_columns :: "image \<Rightarrow> int \<Rightarrow> int \<Rightarrow> image" where
  "zero_columns a c0 c1 =
     (let lo = slice_bound (shape1 a) c0; hi = slice_bound (shape1 a) c1
      in map (\<lambda>row. map (\<lambda>j. if lo \<le> j \<and> j < hi then map (\<lambda>_. 0) (row ! j) else row ! j)
                         [0..<length row]) a)"

text \<open>\<open>a[:, :, :] = a.mean(axis=2, keepdims=True)\<close>. The mean of the channels is a
  float64, and the assignment into the uint8 array truncates it. The sum of the channels
  is an integer below \<open>2^53\<close>, so the truncated quotient is the integer quotient.\<close>

definition channel_mean :: "pixel \<Rightarrow> 8 word" where
  "channel_mean px = of_nat (sum_list (map unat px) div length px)"

definition grey_out :: "image \<Rightarrow> image" where
  "grey_out a = map (map (\<lambda>px. replicate (length px) (channel_mean px))) a"

definition prepare_dashboard :: "nat \<Rightarrow> observation \<Rightarrow> atlas \<Rightarrow> int \<Rightarrow> int \<Rightarrow> py_error + image" where
  "prepare_dashboard B obs res scale board_size =
     (case conversion_array B obs board_size of
        Inl e \<Rightarrow> Inl e
      | Inr conv \<Rightarrow>
          (case render_preprocessed_board conv res of
             Inl e \<Rightarrow> Inl e
           | Inr rendered_array \<Rightarrow>
               let bsv = clamped_blast_strength B obs board_size;
                   amv = clamped_ammo B obs board_size;
                   bs = bsv div 2;
                   am = amv div 2;
                   rendered1 =
                     (if bsv mod 2 = 1
                      then zero_columns rendered_array
                             (offset bs scale + half_texture scale) (offset (bs + 1) scale)
                      else rendered_array);
                   rendered2 =
                     (if amv mod 2 = 1
                      then map rev (zero_columns (map rev rendered1)
                             (offset am scale + half_texture scale) (offset (am + 1) scale))
                      else rendered1)
               in Inr (grey_out rendered2)))"

section \<open>Frame assembler\<close>

text \<open>A PIL image in mode RGB: its size and its pixels, row by row. \<open>Image.new\<close>
  fills the image with black, and \<open>paste\<close> copies an image into the box whose upper
  left corner is given, clipped to the destination.\<close>

record pil_image =
  width :: nat
  height :: nat
  pixels :: "pixel list list"

definition Image_new :: "nat \<times> nat \<Rightarrow> pil_image" where
  "Image_new wh = \<lparr>width = fst wh, height = snd wh,
                   pixels = replicate (snd wh) (replicate (fst wh) [0, 0, 0])\<rparr>"

definition paste :: "pil_image \<Rightarrow> pil_image \<Rightarrow> nat \<times> nat \<Rightarrow> pil_image" where
  "paste dst im box =
     dst\<lparr>pixels :=
       map (\<lambda>y. map (\<lambda>x. if fst box \<le> x \<and> x < fst box + width im \<and>
                            snd box \<le> y \<and> y < snd box + height im
                         then pixels im ! (y - snd box) ! (x - fst box)
                         else pixels dst ! y ! x)
                     [0..<width dst])
           [0..<height dst]\<rparr>"

definition get_concat_h :: "pil_image \<Rightarrow> pil_image \<Rightarrow> pil_image" where
  "get_concat_h im1 im2 =
     (let dst = Image_new (width im1 + width im2, height im1);
          dst = paste dst im1 (0, 0);
          dst = paste dst im2 (width im1, 0)
      in dst)"

definition get_concat_v :: "pil_image \<Rightarrow> pil_image \<Rightarrow> pil_image" where
  "get_concat_v im1 im2 =
     (let dst = Image_new (width im1, height im1 + height im2);
          dst = paste dst im1 (0, 0);
          dst = paste dst im2 (0, height im1)
      in dst)"

text \<open>\<open>ims[0]\<close> to \<open>ims[3]\<close> raise IndexError on a list of fewer than four images.\<close>

definition tile_four_images :: "pil_image list \<Rightarrow> py_error + pil_image" where
  "tile_four_images ims =
     (if length ims < 4 then Inl IndexError
      else
        let left = get_concat_v (ims ! 0) (ims ! 1);
            right = get_concat_v (ims ! 2) (ims ! 3)
        in Inr (get_concat_h left right))"

text \<open>\<open>Image.fromarray\<close> on the arrays that \<open>redraw\<close> returns: a uint8 array of shape
  (H, W, 3) becomes an RGB image of width W and height H. Arrays of other shapes are
  outside the model and reported as TypeError.\<close>

definition fromarray :: "image \<Rightarrow> py_error + pil_image" where
  "fromarray a =
     (if a \<noteq> [] \<and> shape1 a \<noteq> 0 \<and>
         list_all (\<lambda>row. length row = shape1 a \<and> list_all (\<lambda>px. length px = 3) row) a
      then Inr \<lparr>width = shape1 a, height = length a, pixels = a\<rparr>
      else Inl TypeError)"

text \<open>A function that ends without \<open>return\<close> returns \<open>None\<close>.\<close>

definition render_tiled_observations :: "image list \<Rightarrow> py_error + pil_image option" where
  "render_tiled_observations obs =
     (case mapM fromarray obs of
        Inl e \<Rightarrow> Inl e
      | Inr images \<Rightarrow>
          if length images = 4
          then (case tile_four_images images of Inl e \<Rightarrow> Inl e | Inr im \<Rightarrow> Inr (Some im))
          else if length images = 2
          then Inr (Some (get_concat_h (images ! 0) (images ! 1)))
          else Inr None)"

section \<open>The environment\<close>

text \<open>\<open>constants.Item.Agent0.value\<close>, one below \<open>Agent1\<close>.\<close>

definition Agent0 :: int where
  "Agent0 = 10"

text \<open>\<open>np.concatenate([b, d], axis=0)\<close> raises ValueError when the arrays differ in
  another axis.\<close>

definition concatenate0 :: "image \<Rightarrow> image \<Rightarrow> py_error + image" where
  "concatenate0 b d =
     (if b \<noteq> [] \<and> d \<noteq> [] \<and> (shape1 b \<noteq> shape1 d \<or> shape1 (concat b) \<noteq> shape1 (concat d))
      then Inl ValueError
      else Inr (b @ d))"

text \<open>The state of a \<open>PommeGraphic\<close> object as far as this module reads and writes it.
  \<open>pomme_board_size\<close> is the attribute \<open>_board_size\<close> of the simulator class.\<close>

record env =
  sprite_size :: nat
  renres :: atlas
  lastobs_raw :: "observation list option"
  pomme_board_size :: int

text \<open>\<open>__init__\<close>: the atlas is loaded from image files, so it is given here.\<close>

definition init :: "nat \<Rightarrow> atlas \<Rightarrow> int \<Rightarrow> env" where
  "init sprite_size_arg resources board_size_arg =
     \<lparr>sprite_size = sprite_size_arg, renres = resources, lastobs_raw = None,
      pomme_board_size = board_size_arg\<rparr>"

text \<open>\<open>redraw\<close> writes the key \<open>my_sprite\<close> into every observation of the list it is
  given, so it returns the observations as it leaves them, with the views.\<close>

definition redraw :: "nat \<Rightarrow> nat \<Rightarrow> env \<Rightarrow> observation list
    \<Rightarrow> observation list \<times> (py_error + image list)" where
  "redraw K B self obs =
     (let obs' = map (\<lambda>(i, ob). ob\<lparr>my_sprite := Some (Agent0 + int i)\<rparr>) (enumerate 0 obs)
      in (obs',
          case mapM (preprocess_board K) obs' of
            Inl e \<Rightarrow> Inl e
          | Inr ppboards \<Rightarrow>
              (case mapM (\<lambda>(ppboard, ob).
                            case render_preprocessed_board ppboard (renres self) of
                              Inl e \<Rightarrow> Inl e
                            | Inr rendered \<Rightarrow>
                                postprocess_board rendered (renres self) K (bomb_life ob) ppboard)
                         (zip ppboards obs') of
                 Inl e \<Rightarrow> Inl e
               | Inr raw_board_views \<Rightarrow>
                   (case mapM (\<lambda>ob. prepare_dashboard B ob (renres self)
                                       (int (sprite_size self)) (pomme_board_size self)) obs' of
                      Inl e \<Rightarrow> Inl e
                    | Inr dash_views \<Rightarrow>
                        mapM (\<lambda>(b, d). concatenate0 b d) (zip raw_board_views dash_views)))))"

text \<open>\<open>reset\<close> and \<open>step\<close>: the observation list is what the simulator's own \<open>reset\<close>
  or \<open>step\<close> returned. The list is stored before \<open>redraw\<close> runs, and \<open>redraw\<close>
  changes the stored observations in place.\<close>

definition reset :: "nat \<Rightarrow> nat \<Rightarrow> env \<Rightarrow> observation list \<Rightarrow> env \<times> (py_error + image list)" where
  "reset K B self obs =
     (let (obs', views) = redraw K B self obs
      in (self\<lparr>lastobs_raw := Some obs'\<rparr>, views))"

definition step :: "nat \<Rightarrow> nat \<Rightarrow> env \<Rightarrow> observation list \<times> 'r \<times> 'd \<times> 'i
    \<Rightarrow> env \<times> (py_error + image list \<times> 'r \<times> 'd \<times> 'i)" where
  "step K B self result =
     (case result of (obs, reward, done, info) \<Rightarrow>
        let (obs', views) = redraw K B self obs
        in (self\<lparr>lastobs_raw := Some obs'\<rparr>,
            case views of Inl e \<Rightarrow> Inl e | Inr v \<Rightarrow> Inr (v, reward, done, info)))"

text \<open>\<open>if self.lastobs_raw:\<close> tests the truth value of the attribute: \<open>None\<close> and the
  empty list are both false.\<close>

definition get_last_step_raw :: "env \<Rightarrow> py_error + observation list" where
  "get_last_step_raw self =
     (case lastobs_raw self of
        None \<Rightarrow> Inl ResetNeeded
      | Some obs \<Rightarrow> if obs \<noteq> [] then Inr obs else Inl ResetNeeded)"

section \<open>The preprocessor on a store of arrays\<close>

text \<open>
  numpy arrays are objects that are changed in place. To state what
  \<open>preprocess_board\<close> changes, the arrays live in a store, a list whose positions are
  the addresses, and an observation holds the addresses of its board and of its bomb
  countdowns. \<open>.copy()\<close> allocates a new array at the end of the store; every assignment
  into \<open>board\<close> updates the store at that address.
\<close>

type_synonym store = "grid list"

record observation_ref =
  board_at :: nat
  bomb_life_at :: nat
  position_of :: "int \<times> int"
  alive_of :: "int list"
  my_sprite_of :: "int option"

definition preprocess_board_store :: "nat \<Rightarrow> store \<Rightarrow> observation_ref \<Rightarrow> store \<times> (py_error + nat)" where
  "preprocess_board_store K st obs =
     (let brd = length st;
          st0 = st @ [st ! board_at obs];
          bombs = bomb_life_at obs
      in case bomb_overlay K (st0 ! brd) (st0 ! bombs) of
           Inl e \<Rightarrow> (st0, Inl e)
         | Inr g1 \<Rightarrow>
             let st1 = list_update st0 brd g1
             in (case my_sprite_of obs of
                   None \<Rightarrow> (st1, Inl KeyError)
                 | Some my_idx \<Rightarrow>
                     let st2 = list_update st1 brd (substitute_other my_idx (st1 ! brd))
                     in if my_idx \<in> set (alive_of obs)
                        then (case setitem2 (st2 ! brd) (position_of obs) KEEP_MY_AGENT_SPRITE of
                                Inl e \<Rightarrow> (st2, Inl e)
                              | Inr g3 \<Rightarrow> (list_update st2 brd g3, Inr brd))
                        else (st2, Inr brd)))"

text \<open>The observation that a store holds at the addresses of an \<open>observation_ref\<close>;
  the fields that the preprocessor does not read are set to 0.\<close>

definition load :: "store \<Rightarrow> observation_ref \<Rightarrow> observation" where
  "load st obs =
     \<lparr>board = st ! board_at obs, bomb_life = st ! bomb_life_at obs,
      position = position_of obs, alive = alive_of obs,
      blast_strength = 0, ammo = 0, can_kick = 0, my_sprite = my_sprite_of obs\<rparr>"

section \<open>Shapes\<close>

definition image_shape :: "'a list list list \<Rightarrow> nat \<Rightarrow> nat \<Rightarrow> nat \<Rightarrow> bool" where
  "image_shape img h w c =
     (length img = h \<and> list_all (\<lambda>row. length row = w \<and> list_all (\<lambda>px. length px = c) row) img)"

definition atlas_shape :: "'a list list list list \<Rightarrow> nat \<Rightarrow> nat \<Rightarrow> nat \<Rightarrow> nat \<Rightarrow> bool" where
  "atlas_shape res n h w c = (length res = n \<and> list_all (\<lambda>sprite. image_shape sprite h w c) res)"

definition grid_shape :: "'a list list \<Rightarrow> nat \<Rightarrow> nat \<Rightarrow> bool" where
  "grid_shape g R C = (length g = R \<and> list_all (\<lambda>row. length row = C) g)"

text \<open>Every cell is an index of an atlas of \<open>n\<close> sprites.\<close>

definition valid_codes :: "grid \<Rightarrow> nat \<Rightarrow> bool" where
  "valid_codes g n = list_all (list_all (\<lambda>k. 0 \<le> k \<and> k < int n)) g"

text \<open>Every cell is an integer that numpy accepts as an index of an axis of extent
  \<open>n\<close>, and the position that such an index selects.\<close>

definition codes_in_range :: "grid \<Rightarrow> nat \<Rightarrow> bool" where
  "codes_in_range g n = list_all (list_all (\<lambda>k. - int n \<le> k \<and> k < int n)) g"

definition atlas_index :: "nat \<Rightarrow> int \<Rightarrow> nat" where
  "atlas_index n k = nat (if k < 0 then int n + k else k)"

text \<open>The pixel rows that one row of the coded grid renders to: row \<open>i\<close> is the
  concatenation of row \<open>i\<close> of the sprites of the cells.\<close>

definition pixel_rows :: "'a list list list list \<Rightarrow> nat \<Rightarrow> int list \<Rightarrow> 'a list list list" where
  "pixel_rows res h row =
     map (\<lambda>i. concat (map (\<lambda>k. res ! atlas_index (length res) k ! i) row)) [0..<h]"

definition grey :: pixel where
  "grey = [128, 128, 128]"

definition white :: pixel where
  "white = [255, 255, 255]"

text \<open>An image of 8 by 8 pixels of one colour, to tell frames apart.\<close>

definition solid_frame :: "8 word \<Rightarrow> pil_image" where
  "solid_frame k = \<lparr>width = 8, height = 8, pixels = replicate 8 (replicate 8 [k, k, k])\<rparr>"

text \<open>The code written into the centre column, line 165.\<close>

definition kick_code :: "observation \<Rightarrow> int" where
  "kick_code obs = (if can_kick obs > 0 then 8 else - 1)"

text \<open>An atlas of \<open>n\<close> sprites of edge \<open>h\<close>; every pixel of sprite \<open>k\<close> has the
  value \<open>k\<close> in its three channels.\<close>

definition numbered_atlas :: "nat \<Rightarrow> nat \<Rightarrow> atlas" where
  "numbered_atlas n h =
     map (\<lambda>k. replicate h (replicate h [of_nat k, of_nat k, of_nat k])) [0..<n]"

section \<open>Properties of the board compositor\<close>


lemma nth_concat_uniform:
  "\<forall>xs\<in>set xss. length xs = m \<Longrightarrow> r < length xss \<Longrightarrow> i < m \<Longrightarrow> concat xss ! (r * m + i) = xss ! r ! i"
proof (induction xss arbitrary: r)
  case Nil then show ?case by simp
next
  case (Cons a xss)
  show ?case
  proof (cases r)
    case 0 with Cons.prems show ?thesis by (simp add: nth_append)
  next
    case (Suc k)
    with Cons.prems have "concat xss ! (k * m + i) = xss ! k ! i"
      by (intro Cons.IH) auto
    with Suc Cons.prems show ?thesis by (simp add: nth_append)
  qed
qed

lemma length_concat_uniform:
  "\<forall>xs\<in>set xss. length xs = m \<Longrightarrow> length (concat xss) = length xss * m"
  by (induction xss) auto

lemma mapM_Inr:
  "\<forall>x\<in>set xs. f x = Inr (g x) \<Longrightarrow> mapM f xs = Inr (map g xs)"
  by (induction xs) auto

lemma getitem_index:
  "- int (length xs) \<le> k \<Longrightarrow> k < int (length xs) \<Longrightarrow>
   getitem xs k = Inr (xs ! atlas_index (length xs) k)"
  by (simp add: getitem_def norm_index_def atlas_index_def)

lemma atlas_index_less: "- int n \<le> k \<Longrightarrow> k < int n \<Longrightarrow> atlas_index n k < n"
  unfolding atlas_index_def by auto

lemma valid_codes_in_range: "valid_codes g n \<Longrightarrow> codes_in_range g n"
  unfolding valid_codes_def codes_in_range_def list_all_iff by fastforce






lemma shape1_atlas: "atlas_shape res n h w c \<Longrightarrow> 0 < n \<Longrightarrow> shape1 res = h"
  by (cases res) (auto simp: atlas_shape_def image_shape_def shape1_def)

lemma atlas_sprite:
  "atlas_shape res n h w c \<Longrightarrow> k < n \<Longrightarrow> image_shape (res ! k) h w c"
  by (auto simp: atlas_shape_def list_all_length)

lemma image_shape_row: "image_shape img h w c \<Longrightarrow> i < h \<Longrightarrow> length (img ! i) = w"
  by (auto simp: image_shape_def list_all_length)

lemma image_shape_px: "image_shape img h w c \<Longrightarrow> i < h \<Longrightarrow> j < w \<Longrightarrow> length (img ! i ! j) = c"
  by (auto simp: image_shape_def list_all_length)

lemma gather_valid:
  assumes "codes_in_range brd (length res)"
  shows "gather res brd = Inr (map (map (\<lambda>k. res ! atlas_index (length res) k)) brd)"
  unfolding gather_def
proof (rule mapM_Inr, rule ballI)
  fix row assume "row \<in> set brd"
  with assms have "\<forall>k\<in>set row. - int (length res) \<le> k \<and> k < int (length res)"
    by (auto simp: codes_in_range_def list_all_iff)
  then show "mapM (getitem res) row = Inr (map (\<lambda>k. res ! atlas_index (length res) k) row)"
    by (intro mapM_Inr) (simp add: getitem_index)
qed


lemma render_valid:
  assumes "codes_in_range brd (length res)"
  shows "render_preprocessed_board brd res = Inr (concat (map (pixel_rows res (shape1 res)) brd))"
  by (simp add: render_preprocessed_board_def gather_valid[OF assms] transpose_02134_def
      reshape_merge_def pixel_rows_def[abs_def] comp_def)

lemma render_general:
  assumes res: "atlas_shape res n h w ch" and n: "0 < n"
    and brd: "grid_shape brd R C" and codes: "codes_in_range brd n"
  shows "\<exists>img. render_preprocessed_board brd res = Inr img \<and> image_shape img (R * h) (C * w) ch \<and>
           (\<forall>r<R. \<forall>c<C. \<forall>i<h. \<forall>j<w.
              img ! (r * h + i) ! (c * w + j) = res ! atlas_index n (brd ! r ! c) ! i ! j)"
proof -
  let ?img = "concat (map (pixel_rows res h) brd)"
  let ?sp = "\<lambda>k. res ! atlas_index n k"
  have len: "length res = n" using res by (simp add: atlas_shape_def)
  have h: "shape1 res = h" using res n by (rule shape1_atlas)
  have eq: "render_preprocessed_board brd res = Inr ?img"
    using render_valid[of brd res] codes len h by simp
  have R: "length brd = R" using brd by (simp add: grid_shape_def)
  have rowlen: "length row = C" if "row \<in> set brd" for row
    using brd that by (auto simp: grid_shape_def list_all_iff)
  have code: "atlas_index n k < n" if "row \<in> set brd" "k \<in> set row" for row k
  proof -
    have "- int n \<le> k \<and> k < int n"
      using codes that by (auto simp: codes_in_range_def list_all_iff)
    then show ?thesis by (simp add: atlas_index_less)
  qed
  have sprite: "image_shape (?sp k) h w ch" if "row \<in> set brd" "k \<in> set row" for row k
    using atlas_sprite[OF res code[OF that]] .
  have sprite_row: "length (?sp k ! i) = w" if "row \<in> set brd" "k \<in> set row" "i < h" for row k i
    using sprite[OF that(1,2)] that(3) by (rule image_shape_row)
  have prl: "\<forall>xs\<in>set (map (pixel_rows res h) brd). length xs = h"
    by (simp add: pixel_rows_def)
  have row_at: "?img ! (r * h + i) = concat (map (\<lambda>k. ?sp k ! i) (brd ! r))" if "r < R" "i < h" for r i
  proof -
    have "?img ! (r * h + i) = map (pixel_rows res h) brd ! r ! i"
      using that R by (intro nth_concat_uniform[OF prl]) simp_all
    then show ?thesis using that R len by (simp add: pixel_rows_def)
  qed
  have px_at: "?img ! (r * h + i) ! (c * w + j) = ?sp (brd ! r ! c) ! i ! j"
    if "r < R" "c < C" "i < h" "j < w" for r c i j
  proof -
    have mem: "brd ! r \<in> set brd" using that R by simp
    have "\<forall>xs\<in>set (map (\<lambda>k. ?sp k ! i) (brd ! r)). length xs = w"
      using sprite_row[OF mem _ that(3)] by auto
    from nth_concat_uniform[OF this, of c j] that rowlen[OF mem]
    show ?thesis by (simp add: row_at)
  qed
  have shape: "image_shape ?img (R * h) (C * w) ch"
    unfolding image_shape_def list_all_iff
  proof (intro conjI ballI)
    show "length ?img = R * h" using length_concat_uniform[OF prl] R by simp
  next
    fix prow assume "prow \<in> set ?img"
    then obtain row i where ri: "row \<in> set brd" "i < h" and prow: "prow = concat (map (\<lambda>k. ?sp k ! i) row)"
      using len by (auto simp: pixel_rows_def)
    have "\<forall>xs\<in>set (map (\<lambda>k. ?sp k ! i) row). length xs = w"
      using sprite_row[OF ri(1) _ ri(2)] by auto
    from length_concat_uniform[OF this] rowlen[OF ri(1)]
    show "length prow = C * w" by (simp add: prow)
  next
    fix prow px assume "prow \<in> set ?img" "px \<in> set prow"
    then obtain row i k where ri: "row \<in> set brd" "i < h" "k \<in> set row" and px: "px \<in> set (?sp k ! i)"
      using len by (auto simp: pixel_rows_def)
    have sh: "image_shape (?sp k) h w ch"
      using sprite[OF ri(1) ri(3)] .
    have "length (?sp k ! i) = w" using sh ri(2) by (rule image_shape_row)
    with px obtain j where "j < w" "px = ?sp k ! i ! j" by (auto simp: in_set_conv_nth)
    then show "length px = ch" using image_shape_px[OF sh ri(2)] by simp
  qed
  show ?thesis using eq shape px_at by blast
qed

text \<open>
  Claim C1. For every square coded grid whose cells are all indices of the atlas, with
  an atlas of square sprites of edge \<open>h\<close> and three channels,
  \<open>render_preprocessed_board\<close> returns an array of shape
  (rows \<open>\<times>\<close> h, cols \<open>\<times>\<close> h, 3) in which the sprite of cell (r, c) fills the pixel block
  of rows r\<open>\<cdot>\<close>h up to (r+1)\<open>\<cdot>\<close>h and columns c\<open>\<cdot>\<close>h up to (c+1)\<open>\<cdot>\<close>h; the blocks cover the
  whole image. With sprites of one pixel and the atlas (grey, white), the coded grid
  [[0,1],[1,0]] renders to the 2\<open>\<times>\<close>2 checkerboard.
\<close>

theorem render_preprocessed_board_blocks:
  assumes "atlas_shape res n h h 3" and "0 < n"
    and "grid_shape brd R R" and "valid_codes brd n"
  shows "(\<exists>img. render_preprocessed_board brd res = Inr img \<and> image_shape img (R * h) (R * h) 3 \<and>
            (\<forall>r<R. \<forall>c<R. \<forall>i<h. \<forall>j<h.
               img ! (r * h + i) ! (c * h + j) = res ! nat (brd ! r ! c) ! i ! j)) \<and>
         render_preprocessed_board [[0, 1], [1, 0]] [[[grey]], [[white]]]
           = Inr [[grey, white], [white, grey]]"
proof
  have idx: "atlas_index n (brd ! r ! c) = nat (brd ! r ! c)" if "r < R" "c < R" for r c
  proof -
    have "0 \<le> brd ! r ! c"
      using assms(3,4) that by (simp add: valid_codes_def grid_shape_def list_all_length)
    then show ?thesis by (simp add: atlas_index_def)
  qed
  from render_general [OF assms(1,2,3) valid_codes_in_range [OF assms(4)]]
  show "\<exists>img. render_preprocessed_board brd res = Inr img \<and> image_shape img (R * h) (R * h) 3 \<and>
            (\<forall>r<R. \<forall>c<R. \<forall>i<h. \<forall>j<h.
               img ! (r * h + i) ! (c * h + j) = res ! nat (brd ! r ! c) ! i ! j)"
    by (auto simp: idx)
  show "render_preprocessed_board [[0, 1], [1, 0]] [[[grey]], [[white]]]
           = Inr [[grey, white], [white, grey]]"
    by (simp add: render_preprocessed_board_def gather_def getitem_def norm_index_def
        shape1_def transpose_02134_def reshape_merge_def)
qed

theorem render_preprocessed_board_blocks_witness:
  "atlas_shape [[[grey]], [[white]]] 2 1 1 3 \<and> grid_shape [[0, 1], [1, 0 :: int]] 2 2 \<and>
   valid_codes [[0, 1], [1, 0]] 2 \<and>
   (\<exists>img. render_preprocessed_board [[0, 1], [1, 0]] [[[grey]], [[white]]] = Inr img \<and>
          image_shape img 2 2 3 \<and> img ! 0 ! 1 = [[white]] ! 0 ! 0 \<and> img ! 1 ! 1 = [[grey]] ! 0 ! 0)"
proof -
  have a: "atlas_shape [[[grey]], [[white]]] 2 1 1 3"
    by (simp add: atlas_shape_def image_shape_def grey_def white_def)
  have g: "grid_shape [[0, 1], [1, 0 :: int]] 2 2"
    by (simp add: grid_shape_def)
  have v: "valid_codes [[0, 1], [1, 0]] 2"
    by (simp add: valid_codes_def)
  from render_preprocessed_board_blocks [OF a _ g v]
  obtain img where img: "render_preprocessed_board [[0, 1], [1, 0]] [[[grey]], [[white]]] = Inr img"
      "image_shape img (2 * 1) (2 * 1) 3"
      "\<forall>r<2. \<forall>c<2. \<forall>i<1. \<forall>j<1.
         img ! (r * 1 + i) ! (c * 1 + j) = [[[grey]], [[white]]] ! nat ([[0, 1], [1, 0]] ! r ! c) ! i ! j"
    by auto
  from img(3) have "img ! (0 * 1 + 0) ! (1 * 1 + 0) = [[[grey]], [[white]]] ! nat ([[0, 1], [1, 0]] ! 0 ! 1) ! 0 ! 0"
    by (simp del: One_nat_def)
  moreover from img(3) have "img ! (1 * 1 + 0) ! (1 * 1 + 0) = [[[grey]], [[white]]] ! nat ([[0, 1], [1, 0]] ! 1 ! 1) ! 0 ! 0"
    by (simp del: One_nat_def)
  ultimately show ?thesis using a g v img(1,2) by simp
qed

section \<open>Properties of the board preprocessor\<close>


lemma grid_shape_row: "grid_shape g R C \<Longrightarrow> r < R \<Longrightarrow> length (g ! r) = C"
  by (auto simp: grid_shape_def list_all_length)

lemma grid_shape_lengths: "grid_shape g R C \<Longrightarrow> map length g = replicate R C"
  by (auto simp: grid_shape_def list_all_length intro: nth_equalityI)

lemma bomb_overlay_shape:
  assumes "grid_shape brd R C" and "grid_shape bombs R C"
  shows "\<exists>g. bomb_overlay K brd bombs = Inr g \<and> grid_shape g R C \<and>
           (\<forall>r<R. \<forall>c<C. g ! r ! c =
              (if bombs ! r ! c \<noteq> 0 \<and> \<not> has_players (brd ! r ! c) then bombs ! r ! c + int K
               else brd ! r ! c))"
proof -
  have l: "map length brd = map length bombs"
    using assms by (simp add: grid_shape_lengths)
  have R: "length brd = R" "length bombs = R" using assms by (simp_all add: grid_shape_def)
  have C: "length (brd ! r) = C" "length (bombs ! r) = C" if "r < R" for r
    using assms that by (simp_all add: grid_shape_row)
  show ?thesis
    using l R C by (simp add: bomb_overlay_def grid_shape_def list_all_length)
qed

lemma substitute_other_nth:
  assumes "r < length g" and "c < length (g ! r)"
  shows "substitute_other my g ! r ! c =
           (if g ! r ! c = KEEP_MY_AGENT_SPRITE then my else g ! r ! c)"
proof (cases "list_ex (list_ex (\<lambda>v. v = KEEP_MY_AGENT_SPRITE)) g")
  case True
  then show ?thesis using assms by (simp add: substitute_other_def)
next
  case False
  have "g ! r \<in> set g" and "g ! r ! c \<in> set (g ! r)"
    using assms by simp_all
  with False have "g ! r ! c \<noteq> KEEP_MY_AGENT_SPRITE"
    unfolding list_ex_iff by blast
  with False show ?thesis by (simp add: substitute_other_def)
qed

lemma substitute_other_shape: "grid_shape g R C \<Longrightarrow> grid_shape (substitute_other my g) R C"
  by (auto simp: substitute_other_def grid_shape_def list_all_iff)

lemma setitem2_nat:
  assumes "grid_shape g R C" and "r < R" and "c < C"
  shows "setitem2 g (int r, int c) v = Inr (g[r := (g ! r)[c := v]])"
  using assms by (simp add: setitem2_def norm_index_def grid_shape_def list_all_length)



text \<open>
  Claim C5. After preprocessing, the cell at the agent's own position holds the
  placeholder code \<open>KEEP_MY_AGENT_SPRITE\<close> if \<open>my_sprite\<close> is in the alive-set. If it is
  not, the result is the grid that the bomb overlay and the substitution of the
  placeholder left, so the cell at the agent's position holds the placeholder only if
  \<open>my_sprite\<close> is itself the placeholder code and the cell already held it.
\<close>

theorem preprocess_board_identity:
  assumes "grid_shape (board obs) R C" and "grid_shape (bomb_life obs) R C"
    and "my_sprite obs = Some my" and "position obs = (int r, int c)" and "r < R" and "c < C"
  shows "\<exists>g1 g. bomb_overlay K (board obs) (bomb_life obs) = Inr g1 \<and>
           preprocess_board K obs = Inr g \<and>
           (if my \<in> set (alive obs) then g ! r ! c = KEEP_MY_AGENT_SPRITE
            else g = substitute_other my g1 \<and>
                 g ! r ! c = (if g1 ! r ! c = KEEP_MY_AGENT_SPRITE then my else g1 ! r ! c) \<and>
                 (g ! r ! c = KEEP_MY_AGENT_SPRITE) =
                   (my = KEEP_MY_AGENT_SPRITE \<and> g1 ! r ! c = KEEP_MY_AGENT_SPRITE))"
proof -
  from bomb_overlay_shape [OF assms(1,2), of K]
  obtain g1 where g1: "bomb_overlay K (board obs) (bomb_life obs) = Inr g1" "grid_shape g1 R C"
    by blast
  let ?g2 = "substitute_other my g1"
  have g2: "grid_shape ?g2 R C" using g1(2) by (rule substitute_other_shape)
  have len: "r < length g1" "c < length (g1 ! r)" "r < length ?g2" "c < length (?g2 ! r)"
    using g1(2) g2 assms(5,6) by (simp_all add: grid_shape_row) (simp_all add: grid_shape_def)
  show ?thesis
  proof (cases "my \<in> set (alive obs)")
    case True
    then have "preprocess_board K obs = Inr (?g2[r := (?g2 ! r)[c := KEEP_MY_AGENT_SPRITE]])"
      using g1(1) assms(3,4) setitem2_nat [OF g2 assms(5,6)]
      by (simp add: preprocess_board_def)
    with True g1(1) len show ?thesis by simp
  next
    case False
    then have "preprocess_board K obs = Inr ?g2"
      using g1(1) assms(3) by (simp add: preprocess_board_def)
    with False g1(1) substitute_other_nth [OF len(1,2), of my] show ?thesis by auto
  qed
qed

theorem preprocess_board_identity_witness:
  "(\<exists>g. preprocess_board 14
          \<lparr>board = [[0, 10], [3, 0]], bomb_life = [[0, 5], [4, 0]], position = (0, 1),
           alive = [10, 11], blast_strength = 2, ammo = 1, can_kick = 0,
           my_sprite = Some 10\<rparr> = Inr g \<and> g ! 0 ! 1 = 11) \<and>
   (\<exists>g. preprocess_board 14
          \<lparr>board = [[0, 0], [3, 11]], bomb_life = [[0, 5], [4, 0]], position = (0, 1),
           alive = [11], blast_strength = 2, ammo = 1, can_kick = 0,
           my_sprite = Some 10\<rparr> = Inr g \<and> g ! 0 ! 1 = 19)"
proof -
  let ?a = "\<lparr>board = [[0, 10], [3, 0]], bomb_life = [[0, 5], [4, 0]], position = (0, 1),
             alive = [10, 11], blast_strength = 2, ammo = 1, can_kick = 0,
             my_sprite = Some 10\<rparr>"
  let ?d = "\<lparr>board = [[0, 0], [3, 11]], bomb_life = [[0, 5], [4, 0]], position = (0, 1),
             alive = [11], blast_strength = 2, ammo = 1, can_kick = 0,
             my_sprite = Some 10\<rparr>"
  have a: "grid_shape (board ?a) 2 2" "grid_shape (bomb_life ?a) 2 2" "my_sprite ?a = Some 10"
      "position ?a = (int 0, int 1)"
    by (simp_all add: grid_shape_def)
  have d: "grid_shape (board ?d) 2 2" "grid_shape (bomb_life ?d) 2 2" "my_sprite ?d = Some 10"
      "position ?d = (int 0, int 1)"
    by (simp_all add: grid_shape_def)
  have o: "bomb_overlay 14 (board ?d) (bomb_life ?d) = Inr [[0, 19], [18, 11]]"
    by (simp add: bomb_overlay_def has_players_def)
  from preprocess_board_identity [OF a, of 14]
  have "\<exists>g. preprocess_board 14 ?a = Inr g \<and> g ! 0 ! 1 = 11"
    by (auto simp: KEEP_MY_AGENT_SPRITE_def)
  moreover from preprocess_board_identity [OF d, of 14] o
  have "\<exists>g. preprocess_board 14 ?d = Inr g \<and> g ! 0 ! 1 = 19"
    by (auto simp: KEEP_MY_AGENT_SPRITE_def)
  ultimately show ?thesis by blast
qed

section \<open>Properties of the frame assembler\<close>


lemma mapM_length: "mapM f xs = Inr ys \<Longrightarrow> length ys = length xs"
  by (induction xs arbitrary: ys) (auto split: sum.splits)

lemma mapM_total: "\<forall>x\<in>set xs. \<exists>y. f x = Inr y \<Longrightarrow> \<exists>ys. mapM f xs = Inr ys"
  by (induction xs) auto

lemma paste_size [simp]: "width (paste dst im box) = width dst" "height (paste dst im box) = height dst"
  by (simp_all add: paste_def)

lemma Image_new_size [simp]: "width (Image_new (w, h)) = w" "height (Image_new (w, h)) = h"
  by (simp_all add: Image_new_def)

lemma paste_pixel:
  "y < height dst \<Longrightarrow> x < width dst \<Longrightarrow>
   pixels (paste dst im (bx, by)) ! y ! x =
     (if bx \<le> x \<and> x < bx + width im \<and> by \<le> y \<and> y < by + height im
      then pixels im ! (y - by) ! (x - bx) else pixels dst ! y ! x)"
  by (simp add: paste_def)

lemma get_concat_h_size [simp]:
  "width (get_concat_h a b) = width a + width b" "height (get_concat_h a b) = height a"
  by (simp_all add: get_concat_h_def Let_def)

lemma get_concat_v_size [simp]:
  "width (get_concat_v a b) = width a" "height (get_concat_v a b) = height a + height b"
  by (simp_all add: get_concat_v_def Let_def)

lemma get_concat_h_pixel:
  "y < height a \<Longrightarrow> x < width a + width b \<Longrightarrow>
   pixels (get_concat_h a b) ! y ! x =
     (if x < width a then pixels a ! y ! x
      else if y < height b then pixels b ! y ! (x - width a) else [0, 0, 0])"
  by (simp add: get_concat_h_def Let_def paste_pixel) (simp add: Image_new_def)

lemma get_concat_v_pixel:
  "y < height a + height b \<Longrightarrow> x < width a \<Longrightarrow>
   pixels (get_concat_v a b) ! y ! x =
     (if y < height a then pixels a ! y ! x
      else if x < width b then pixels b ! (y - height a) ! x else [0, 0, 0])"
  by (simp add: get_concat_v_def Let_def paste_pixel) (simp add: Image_new_def)

lemma get_concat_h_rows:
  "length (pixels (get_concat_h a b)) = height a \<and>
   list_all (\<lambda>row. length row = width a + width b) (pixels (get_concat_h a b))"
  by (auto simp: get_concat_h_def Let_def paste_def list_all_iff)

text \<open>
  Claim C8. For four images of one size, \<open>tile_four_images\<close> returns an image of
  twice the width and twice the height, with image 0 in the top left, image 1 in the
  bottom left, image 2 in the top right and image 3 in the bottom right quarter. For two
  images of one size, \<open>get_concat_h\<close> returns an image of twice the width with the
  first image in the left and the second in the right half.
\<close>

theorem tile_four_images_layout:
  assumes "list_all (\<lambda>im. width im = w \<and> height im = h) [im0, im1, im2, im3]"
  shows "\<exists>t. tile_four_images [im0, im1, im2, im3] = Inr t \<and>
           width t = 2 * w \<and> height t = 2 * h \<and> length (pixels t) = 2 * h \<and>
           list_all (\<lambda>row. length row = 2 * w) (pixels t) \<and>
           (\<forall>x<w. \<forall>y<h.
              pixels t ! y ! x = pixels im0 ! y ! x \<and>
              pixels t ! (h + y) ! x = pixels im1 ! y ! x \<and>
              pixels t ! y ! (w + x) = pixels im2 ! y ! x \<and>
              pixels t ! (h + y) ! (w + x) = pixels im3 ! y ! x) \<and>
           width (get_concat_h im0 im1) = 2 * w \<and> height (get_concat_h im0 im1) = h \<and>
           (\<forall>x<w. \<forall>y<h.
              pixels (get_concat_h im0 im1) ! y ! x = pixels im0 ! y ! x \<and>
              pixels (get_concat_h im0 im1) ! y ! (w + x) = pixels im1 ! y ! x)"
proof -
  let ?t = "get_concat_h (get_concat_v im0 im1) (get_concat_v im2 im3)"
  have sz: "width im0 = w" "width im1 = w" "width im2 = w" "width im3 = w"
      "height im0 = h" "height im1 = h" "height im2 = h" "height im3 = h"
    using assms by simp_all
  have t: "tile_four_images [im0, im1, im2, im3] = Inr ?t"
    by (simp add: tile_four_images_def)
  have rows: "length (pixels ?t) = 2 * h" "list_all (\<lambda>row. length row = 2 * w) (pixels ?t)"
    using get_concat_h_rows [of "get_concat_v im0 im1" "get_concat_v im2 im3"] sz
    by (simp_all add: mult_2)
  have px: "pixels ?t ! y ! x = pixels im0 ! y ! x \<and>
              pixels ?t ! (h + y) ! x = pixels im1 ! y ! x \<and>
              pixels ?t ! y ! (w + x) = pixels im2 ! y ! x \<and>
              pixels ?t ! (h + y) ! (w + x) = pixels im3 ! y ! x" if "x < w" "y < h" for x y
    using that sz by (simp add: get_concat_h_pixel get_concat_v_pixel)
  have two: "pixels (get_concat_h im0 im1) ! y ! x = pixels im0 ! y ! x \<and>
              pixels (get_concat_h im0 im1) ! y ! (w + x) = pixels im1 ! y ! x" if "x < w" "y < h" for x y
    using that sz by (simp add: get_concat_h_pixel)
  show ?thesis using t rows px two sz by simp
qed

theorem tile_four_images_layout_witness:
  "\<exists>t. tile_four_images [solid_frame 0, solid_frame 1, solid_frame 2, solid_frame 3] = Inr t \<and>
       width t = 16 \<and> height t = 16 \<and>
       pixels t ! 7 ! 7 = [0, 0, 0] \<and> pixels t ! 8 ! 7 = [1, 1, 1] \<and>
       pixels t ! 7 ! 8 = [2, 2, 2] \<and> pixels t ! 8 ! 8 = [3, 3, 3] \<and>
       pixels (get_concat_h (solid_frame 0) (solid_frame 1)) ! 7 ! 7 = [0, 0, 0] \<and>
       pixels (get_concat_h (solid_frame 0) (solid_frame 1)) ! 7 ! 8 = [1, 1, 1]"
proof -
  have "list_all (\<lambda>im. width im = 8 \<and> height im = 8)
          [solid_frame 0, solid_frame 1, solid_frame 2, solid_frame 3]"
    by (simp add: solid_frame_def)
  from tile_four_images_layout [OF this]
  obtain t where t: "tile_four_images [solid_frame 0, solid_frame 1, solid_frame 2, solid_frame 3] = Inr t"
      "width t = 2 * 8" "height t = 2 * 8"
      "\<forall>x<8. \<forall>y<8.
          pixels t ! y ! x = pixels (solid_frame 0) ! y ! x \<and>
          pixels t ! (8 + y) ! x = pixels (solid_frame 1) ! y ! x \<and>
          pixels t ! y ! (8 + x) = pixels (solid_frame 2) ! y ! x \<and>
          pixels t ! (8 + y) ! (8 + x) = pixels (solid_frame 3) ! y ! x"
      "\<forall>x<8. \<forall>y<8.
          pixels (get_concat_h (solid_frame 0) (solid_frame 1)) ! y ! x = pixels (solid_frame 0) ! y ! x \<and>
          pixels (get_concat_h (solid_frame 0) (solid_frame 1)) ! y ! (8 + x) = pixels (solid_frame 1) ! y ! x"
    by blast
  have v: "pixels (solid_frame k) ! 7 ! 7 = [k, k, k]" "pixels (solid_frame k) ! 0 ! 7 = [k, k, k]"
      "pixels (solid_frame k) ! 7 ! 0 = [k, k, k]" "pixels (solid_frame k) ! 0 ! 0 = [k, k, k]" for k
    by (simp_all add: solid_frame_def)
  have q: "pixels t ! y ! x = pixels (solid_frame 0) ! y ! x \<and>
          pixels t ! (8 + y) ! x = pixels (solid_frame 1) ! y ! x \<and>
          pixels t ! y ! (8 + x) = pixels (solid_frame 2) ! y ! x \<and>
          pixels t ! (8 + y) ! (8 + x) = pixels (solid_frame 3) ! y ! x \<and>
          pixels (get_concat_h (solid_frame 0) (solid_frame 1)) ! y ! x = pixels (solid_frame 0) ! y ! x \<and>
          pixels (get_concat_h (solid_frame 0) (solid_frame 1)) ! y ! (8 + x) = pixels (solid_frame 1) ! y ! x"
    if "x < 8" "y < 8" for x y
    using t(4,5) that by blast
  show ?thesis
    using t(1,2,3) q [of 7 7] q [of 7 0] q [of 0 7] q [of 0 0] by (simp add: v)
qed

text \<open>
  Claim C10. For a list of arrays that \<open>Image.fromarray\<close> accepts,
  \<open>render_tiled_observations\<close> raises no error; it returns an image when the list has
  exactly two or exactly four entries and \<open>None\<close> for every other length.
\<close>

theorem render_tiled_observations_lengths:
  assumes "\<forall>a\<in>set obs. \<exists>im. fromarray a = Inr im"
  shows "if length obs = 2 \<or> length obs = 4
         then \<exists>im. render_tiled_observations obs = Inr (Some im)
         else render_tiled_observations obs = Inr None"
proof -
  from mapM_total [OF assms] obtain images where im: "mapM fromarray obs = Inr images"
    by blast
  then have "length images = length obs" by (rule mapM_length)
  with im show ?thesis
    by (auto simp: render_tiled_observations_def tile_four_images_def)
qed

theorem render_tiled_observations_lengths_witness:
  "fromarray [[[0, 0, 0]]] = Inr \<lparr>width = 1, height = 1, pixels = [[[0, 0, 0]]]\<rparr> \<and>
   render_tiled_observations [[[[0, 0, 0]]], [[[1, 1, 1]]], [[[2, 2, 2]]]] = Inr None \<and>
   (\<exists>im. render_tiled_observations [[[[0, 0, 0]]], [[[1, 1, 1]]]] = Inr (Some im))"
proof -
  have a: "\<forall>a\<in>set [[[[0, 0, 0]]], [[[1, 1, 1]]], [[[2, 2, 2]]]]. \<exists>im. fromarray a = Inr im"
    by (simp add: fromarray_def shape1_def)
  have b: "\<forall>a\<in>set [[[[0, 0, 0]]], [[[1, 1, 1]]]]. \<exists>im. fromarray a = Inr im"
    by (simp add: fromarray_def shape1_def)
  have c: "fromarray [[[0, 0, 0]]] = Inr \<lparr>width = 1, height = 1, pixels = [[[0, 0, 0]]]\<rparr>"
    by (simp add: fromarray_def shape1_def)
  show ?thesis
    using c render_tiled_observations_lengths [OF a] render_tiled_observations_lengths [OF b]
    by simp
qed

section \<open>Properties of the observation cache\<close>

lemma redraw_length: "length (fst (redraw K B self obs)) = length obs"
  by (simp add: redraw_def Let_def)

lemma get_last_step_raw_before_reset: "get_last_step_raw (init sz res bs) = Inl ResetNeeded"
  by (simp add: get_last_step_raw_def init_def)

lemma get_last_step_raw_after_reset:
  "obs \<noteq> [] \<Longrightarrow> get_last_step_raw (fst (reset K B self obs)) = Inr (fst (redraw K B self obs))"
  using redraw_length [of K B self obs]
  by (cases "redraw K B self obs") (auto simp: get_last_step_raw_def reset_def)

text \<open>
  Claim C7. \<open>get_last_step_raw\<close> is to raise ResetNeeded exactly when no reset or step
  has stored an observation list. The code tests the truth value of the stored list, so
  after a reset whose observation list is empty (an environment without agents), where
  \<open>reset\<close> itself succeeds and returns the empty list of views, the getter still raises.
\<close>

theorem get_last_step_raw_empty_reset:
  "snd (reset K B (init sz res bs) []) = Inr [] \<and>
   lastobs_raw (fst (reset K B (init sz res bs) [])) = Some [] \<and>
   get_last_step_raw (fst (reset K B (init sz res bs) [])) = Inl ResetNeeded"
  by (simp add: get_last_step_raw_def reset_def redraw_def init_def enumerate_eq_zip)

section \<open>Properties of the dashboard compositor\<close>

lemma numbered_atlas_shape: "atlas_shape (numbered_atlas n h) n h h 3"
  by (simp add: numbered_atlas_def atlas_shape_def image_shape_def list_all_iff)

lemma fill_slice_length [simp]: "length (fill_slice xs a b v) = length xs"
  by (simp add: fill_slice_def Let_def)

lemma fill_slice_nth:
  "j < length xs \<Longrightarrow> fill_slice xs a b v ! j =
     (if slice_bound (length xs) a \<le> j \<and> j < slice_bound (length xs) b then v else xs ! j)"
  by (simp add: fill_slice_def Let_def)

lemma rev_fill_slice_nth:
  assumes "j < length xs"
  shows "rev (fill_slice (rev xs) a b v) ! j =
     (if slice_bound (length xs) a \<le> length xs - 1 - j \<and> length xs - 1 - j < slice_bound (length xs) b
      then v else xs ! j)"
proof -
  have "length xs - Suc j < length xs" using assms by simp
  then show ?thesis using assms by (simp add: rev_nth fill_slice_nth)
qed

lemma slice_bound_nonneg: "0 \<le> x \<Longrightarrow> slice_bound n x = min n (nat x)"
  by (simp add: slice_bound_def)


lemma conversion_array_row:
  assumes "0 < board_size" and "0 \<le> clamped_blast_strength B obs board_size"
    and "0 \<le> clamped_ammo B obs board_size"
  shows "\<exists>row. conversion_array B obs board_size = Inr [row] \<and> length row = nat board_size \<and>
           (\<forall>j<nat board_size. row ! j =
              (if j = nat (board_size div 2) then kick_code obs
               else if nat board_size - nat ((clamped_ammo B obs board_size + 1) div 2) \<le> j then 3
               else if j < nat ((clamped_blast_strength B obs board_size + 1) div 2) then 4
               else - 1))"
proof -
  let ?n = "nat board_size"
  let ?kb = "(clamped_blast_strength B obs board_size + 1) div 2"
  let ?ka = "(clamped_ammo B obs board_size + 1) div 2"
  let ?row1 = "fill_slice (replicate ?n (- 1)) 0 ?kb (4::int)"
  let ?row2 = "rev (fill_slice (rev ?row1) 0 ?ka 3)"
  let ?row3 = "?row2[nat (board_size div 2) := kick_code obs]"
  have kb: "0 \<le> ?kb" and ka: "0 \<le> ?ka" using assms by simp_all
  have c: "norm_index ?n (board_size div 2) = Inr (nat (board_size div 2))"
    using assms(1) by (simp add: norm_index_def)
  have eq: "conversion_array B obs board_size = Inr [?row3]"
    using assms(1) c by (simp add: conversion_array_def Let_def setitem_def kick_code_def)
  have n3: "?row3 ! j =
              (if j = nat (board_size div 2) then kick_code obs
               else if ?n - nat ?ka \<le> j then 3
               else if j < nat ?kb then 4
               else - 1)" if "j < ?n" for j
  proof -
    have r1: "?row1 ! j = (if j < nat ?kb then 4 else - 1)"
      using that kb by (simp add: fill_slice_nth slice_bound_nonneg)
    have r2: "?row2 ! j = (if ?n - nat ?ka \<le> j then 3 else ?row1 ! j)"
      using that ka rev_fill_slice_nth [of j ?row1 0 ?ka 3]
      by (auto simp: slice_bound_nonneg)
    have len2: "length ?row2 = ?n" by simp
    show ?thesis
    proof (cases "j = nat (board_size div 2)")
      case True
      then have "?row3 ! j = kick_code obs"
        using that len2 by (simp only: nth_list_update_eq)
      with True show ?thesis by simp
    next
      case False
      then have "?row3 ! j = ?row2 ! j"
        by (simp only: nth_list_update_neq not_sym)
      with False r1 r2 show ?thesis by simp
    qed
  qed
  show ?thesis using eq n3 by simp
qed

lemma bounds_even_odd:
  "ammo_board_bound n = (if n mod 2 = 1 then bs_board_bound n else bs_board_bound n - 2)"
  by (simp add: ammo_board_bound_def bs_board_bound_def)

lemma board_bounds_nonneg:
  assumes "0 < board_size"
  shows "0 \<le> bs_board_bound board_size" and "0 \<le> ammo_board_bound board_size"
proof -
  have e: "2 \<le> board_size" if "board_size mod 2 \<noteq> 1"
    using assms that by presburger
  show "0 \<le> bs_board_bound board_size"
    using assms by (simp add: bs_board_bound_def)
  show "0 \<le> ammo_board_bound board_size"
    using assms e by (cases "board_size mod 2 = 1") (simp_all add: ammo_board_bound_def)
qed

lemma clamped_ammo_bounds:
  assumes "0 < board_size" and "0 \<le> ammo obs"
  shows "0 \<le> clamped_ammo B obs board_size"
    and "nat (board_size div 2) < nat board_size - nat ((clamped_ammo B obs board_size + 1) div 2)"
proof -
  let ?am = "clamped_ammo B obs board_size"
  show nn: "0 \<le> ?am"
    using assms(2) board_bounds_nonneg(2) [OF assms(1)] by (simp add: clamped_ammo_def)
  have le: "?am \<le> ammo_board_bound board_size" by (simp add: clamped_ammo_def)
  have "board_size div 2 + (?am + 1) div 2 < board_size"
  proof (cases "board_size mod 2 = 1")
    case True
    then have "?am \<le> board_size - 1" using le by (simp add: ammo_board_bound_def)
    with True show ?thesis by presburger
  next
    case False
    then have "?am \<le> board_size - 2" using le by (simp add: ammo_board_bound_def)
    with False show ?thesis by presburger
  qed
  then show "nat (board_size div 2) < nat board_size - nat ((?am + 1) div 2)"
    using assms(1) nn by linarith
qed

lemma image_shapeI:
  assumes "length a = H" and "\<And>y. y < H \<Longrightarrow> length (a ! y) = W"
    and "\<And>y x. y < H \<Longrightarrow> x < W \<Longrightarrow> length (a ! y ! x) = c"
  shows "image_shape a H W c"
  using assms by (simp add: image_shape_def list_all_length)

lemma image_shape_length: "image_shape a H W c \<Longrightarrow> length a = H"
  by (simp add: image_shape_def)

lemma image_shape_shape1: "image_shape a H W c \<Longrightarrow> 0 < H \<Longrightarrow> shape1 a = W"
  by (cases a) (auto simp: image_shape_def shape1_def)










lemma clamped_blast_strength_nonneg:
  assumes "0 < board_size" and "0 \<le> blast_strength obs"
  shows "0 \<le> clamped_blast_strength B obs board_size"
proof -
  show ?thesis
    using assms(2) board_bounds_nonneg(1) [OF assms(1)] by (simp add: clamped_blast_strength_def)
qed




text \<open>
  Claim C3, as the code has it. The board-size bound of the ammo clamp is the bound of
  the blast-strength clamp when \<open>board_size\<close> is odd (both are \<open>board_size - 1\<close>) and
  is smaller by 2 when \<open>board_size\<close> is even. For a positive board size and counts that
  are not negative, the cells of the code row that hold the ammo sprite index 3 are
  exactly the last \<open>(clamped_ammo + 1) div 2\<close> cells, which is the clamped ammo halved
  and rounded up.
\<close>

theorem conversion_array_ammo:
  assumes "0 < board_size" and "0 \<le> ammo obs" and "0 \<le> blast_strength obs"
  shows "ammo_board_bound board_size =
           (if board_size mod 2 = 1 then bs_board_bound board_size
            else bs_board_bound board_size - 2) \<and>
         clamped_ammo B obs board_size \<le> 2 * ((clamped_ammo B obs board_size + 1) div 2) \<and>
         2 * ((clamped_ammo B obs board_size + 1) div 2) \<le> clamped_ammo B obs board_size + 1 \<and>
         (\<exists>row. conversion_array B obs board_size = Inr [row] \<and> length row = nat board_size \<and>
            (\<forall>j<nat board_size.
               (row ! j = 3) =
               (nat board_size - nat ((clamped_ammo B obs board_size + 1) div 2) \<le> j)))"
proof -
  let ?am = "clamped_ammo B obs board_size"
  note am = clamped_ammo_bounds [OF assms(1,2), of B]
  from conversion_array_row [OF assms(1) clamped_blast_strength_nonneg [OF assms(1,3)] am(1)]
  obtain row where row: "conversion_array B obs board_size = Inr [row]" "length row = nat board_size"
    "\<forall>j<nat board_size. row ! j =
              (if j = nat (board_size div 2) then kick_code obs
               else if nat board_size - nat ((?am + 1) div 2) \<le> j then 3
               else if j < nat ((clamped_blast_strength B obs board_size + 1) div 2) then 4
               else - 1)"
    by blast
  have k: "kick_code obs \<noteq> 3" by (simp add: kick_code_def)
  have "(row ! j = 3) = (nat board_size - nat ((?am + 1) div 2) \<le> j)" if "j < nat board_size" for j
    using row(3) that am(2) k by auto
  then show ?thesis using row(1,2) by (auto simp: bounds_even_odd)
qed

theorem conversion_array_ammo_witness:
  "ammo_board_bound 8 = bs_board_bound 8 - 2 \<and>
   (\<exists>row. conversion_array 10
            \<lparr>board = [], bomb_life = [], position = (0, 0), alive = [], blast_strength = 2,
             ammo = 3, can_kick = 0, my_sprite = None\<rparr> 8 = Inr [row] \<and>
          row ! 5 \<noteq> 3 \<and> row ! 6 = 3 \<and> row ! 7 = 3)"
proof -
  let ?obs = "\<lparr>board = [], bomb_life = [], position = (0, 0), alive = [], blast_strength = 2,
             ammo = 3, can_kick = 0, my_sprite = None\<rparr>"
  have am: "clamped_ammo 10 ?obs 8 = 3"
    by (simp add: clamped_ammo_def ammo_board_bound_def)
  have h: "(0::int) < 8" "0 \<le> ammo ?obs" "0 \<le> blast_strength ?obs"
    by simp_all
  from conversion_array_ammo [OF h, of 10]
  obtain row where row: "conversion_array 10 ?obs 8 = Inr [row]"
      "\<forall>j<8. (row ! j = 3) = (8 - nat ((3 + 1) div 2) \<le> j)"
      and b: "ammo_board_bound 8 = bs_board_bound 8 - 2"
    by (auto simp: am)
  have q: "(row ! j = 3) = (6 \<le> j)" if "j < 8" for j
    using row(2) that by simp
  show ?thesis using b row(1) q [of 5] q [of 6] q [of 7] by simp
qed

text \<open>The claim as the spec words it fails on an 11-wide board: both bounds are 10,
  so they do not differ by 1.\<close>

theorem ammo_board_bound_counterexample:
  "(11::int) mod 2 = 1 \<and> bs_board_bound 11 = 10 \<and> ammo_board_bound 11 = 10 \<and>
   \<not> (\<bar>bs_board_bound 11 - ammo_board_bound 11\<bar> = 1)"
  by (simp add: bs_board_bound_def ammo_board_bound_def)



section \<open>Properties of the preprocessor on the store\<close>

lemma store_run:
  assumes "board_at obs < length st" and "bomb_life_at obs < length st"
  shows "\<exists>g. fst (preprocess_board_store K st obs) = st @ [g] \<and>
           (case preprocess_board K (load st obs) of
              Inl e \<Rightarrow> snd (preprocess_board_store K st obs) = Inl e
            | Inr g' \<Rightarrow> snd (preprocess_board_store K st obs) = Inr (length st) \<and> g = g')"
proof (cases "bomb_overlay K (st ! board_at obs) (st ! bomb_life_at obs)")
  case (Inl e)
  then show ?thesis
    using assms by (simp add: preprocess_board_store_def preprocess_board_def load_def Let_def nth_append)
next
  case g: (Inr g1)
  show ?thesis
  proof (cases "my_sprite_of obs")
    case None
    with g show ?thesis
      using assms by (simp add: preprocess_board_store_def preprocess_board_def load_def Let_def nth_append)
  next
    case (Some my_idx)
    show ?thesis
    proof (cases "setitem2 (substitute_other my_idx g1) (position_of obs) KEEP_MY_AGENT_SPRITE")
      case (Inl e)
      with g Some show ?thesis
        using assms by (simp add: preprocess_board_store_def preprocess_board_def load_def Let_def nth_append)
    next
      case (Inr g3)
      with g Some show ?thesis
        using assms by (simp add: preprocess_board_store_def preprocess_board_def load_def Let_def nth_append)
    qed
  qed
qed

lemma load_append:
  "board_at obs < length st \<Longrightarrow> bomb_life_at obs < length st \<Longrightarrow> load (st @ xs) obs = load st obs"
  by (simp add: load_def nth_append)

text \<open>
  Claim C9. \<open>preprocess_board\<close> changes no array that existed before the call: the
  store after the call is the store before it with one new array, the coded grid, at
  its end, so the board and the bomb countdowns of the observation are as they were
  (the other fields it reads are immutable values). Run a second time on the same
  observation, it ends in the same way, and when it returns it returns a second new
  array equal to the first; the coded grid is the value of the function
  \<open>preprocess_board\<close> on the observation that the store holds.
\<close>

theorem preprocess_board_store_pure:
  assumes "board_at obs < length st" and "bomb_life_at obs < length st"
  shows "\<exists>g1 g2.
           fst (preprocess_board_store K st obs) = st @ [g1] \<and>
           fst (preprocess_board_store K (st @ [g1]) obs) = st @ [g1, g2] \<and>
           (case preprocess_board K (load st obs) of
              Inl e \<Rightarrow> snd (preprocess_board_store K st obs) = Inl e \<and>
                       snd (preprocess_board_store K (st @ [g1]) obs) = Inl e
            | Inr g \<Rightarrow> snd (preprocess_board_store K st obs) = Inr (length st) \<and>
                       snd (preprocess_board_store K (st @ [g1]) obs) = Inr (length st + 1) \<and>
                       g1 = g \<and> g2 = g)"
proof -
  from store_run [OF assms, of K] obtain g1 where
    g1: "fst (preprocess_board_store K st obs) = st @ [g1]"
      "case preprocess_board K (load st obs) of
              Inl e \<Rightarrow> snd (preprocess_board_store K st obs) = Inl e
            | Inr g' \<Rightarrow> snd (preprocess_board_store K st obs) = Inr (length st) \<and> g1 = g'"
    by blast
  have a: "board_at obs < length (st @ [g1])" "bomb_life_at obs < length (st @ [g1])"
    using assms by simp_all
  from store_run [OF a, of K] obtain g2 where
    g2: "fst (preprocess_board_store K (st @ [g1]) obs) = (st @ [g1]) @ [g2]"
      "case preprocess_board K (load (st @ [g1]) obs) of
              Inl e \<Rightarrow> snd (preprocess_board_store K (st @ [g1]) obs) = Inl e
            | Inr g' \<Rightarrow> snd (preprocess_board_store K (st @ [g1]) obs) = Inr (length (st @ [g1])) \<and> g2 = g'"
    by blast
  show ?thesis
    using g1 g2 load_append [OF assms, of "[g1]"]
    by (auto split: sum.splits)
qed

theorem preprocess_board_store_pure_witness:
  "fst (preprocess_board_store 14 [[[0, 10], [3, 0]], [[0, 5], [4, 0]]]
          \<lparr>board_at = 0, bomb_life_at = 1, position_of = (0, 1), alive_of = [10, 11],
           my_sprite_of = Some 10\<rparr>)
     = [[[0, 10], [3, 0]], [[0, 5], [4, 0]], [[0, 11], [18, 0]]] \<and>
   snd (preprocess_board_store 14 [[[0, 10], [3, 0]], [[0, 5], [4, 0]]]
          \<lparr>board_at = 0, bomb_life_at = 1, position_of = (0, 1), alive_of = [10, 11],
           my_sprite_of = Some 10\<rparr>) = Inr 2 \<and>
   preprocess_board_store 14 [[[0, 10], [3, 0]], [[0, 5], [4, 0]], [[0, 11], [18, 0]]]
          \<lparr>board_at = 0, bomb_life_at = 1, position_of = (0, 1), alive_of = [10, 11],
           my_sprite_of = Some 10\<rparr>
     = ([[[0, 10], [3, 0]], [[0, 5], [4, 0]], [[0, 11], [18, 0]], [[0, 11], [18, 0]]], Inr 3)"
proof -
  let ?st = "[[[0, 10], [3, 0]], [[0, 5], [4, 0 :: int]]]"
  let ?obs = "\<lparr>board_at = 0, bomb_life_at = 1, position_of = (0, 1), alive_of = [10, 11],
           my_sprite_of = Some 10\<rparr>"
  have r: "board_at ?obs < length ?st" "bomb_life_at ?obs < length ?st"
    by simp_all
  have p: "preprocess_board 14 (load ?st ?obs) = Inr [[0, 11], [18, 0]]"
    by (simp add: preprocess_board_def load_def bomb_overlay_def has_players_def
        substitute_other_def setitem2_def norm_index_def KEEP_MY_AGENT_SPRITE_def)
  from preprocess_board_store_pure [OF r, of 14]
  obtain g1 g2 where f: "fst (preprocess_board_store 14 ?st ?obs) = ?st @ [g1]"
      "fst (preprocess_board_store 14 (?st @ [g1]) ?obs) = ?st @ [g1, g2]"
    and c: "case preprocess_board 14 (load ?st ?obs) of
              Inl e \<Rightarrow> snd (preprocess_board_store 14 ?st ?obs) = Inl e \<and>
                       snd (preprocess_board_store 14 (?st @ [g1]) ?obs) = Inl e
            | Inr g \<Rightarrow> snd (preprocess_board_store 14 ?st ?obs) = Inr (length ?st) \<and>
                       snd (preprocess_board_store 14 (?st @ [g1]) ?obs) = Inr (length ?st + 1) \<and>
                       g1 = g \<and> g2 = g"
    by blast
  from c have d: "snd (preprocess_board_store 14 ?st ?obs) = Inr (length ?st)"
      "snd (preprocess_board_store 14 (?st @ [g1]) ?obs) = Inr (length ?st + 1)"
      "g1 = [[0, 11], [18, 0]]" "g2 = [[0, 11], [18, 0]]"
    unfolding p sum.case by blast+
  have "preprocess_board_store 14 (?st @ [g1]) ?obs = (?st @ [g1, g2], Inr (length ?st + 1))"
    using f(2) d(2) by (simp only: prod_eq_iff fst_conv snd_conv)
  then show ?thesis using f(1) d(1,3,4) by simp
qed

section \<open>Properties of the bomb-marker overlay\<close>

lemma mapM_id: "\<forall>x\<in>set xs. f x = Inr x \<Longrightarrow> mapM f xs = Inr xs"
  using mapM_Inr [of xs f "\<lambda>x. x"] by simp

lemma broadcast_axis_same: "length xs = n \<Longrightarrow> broadcast_axis n xs = Inr xs"
  by (simp add: broadcast_axis_def)

lemma broadcast3_same:
  assumes "image_shape v lh lw lc"
  shows "broadcast3 lh lw lc v = Inr v"
proof -
  have row: "(case mapM (broadcast_axis lc) row of Inl e \<Rightarrow> Inl e | Inr row' \<Rightarrow> broadcast_axis lw row') = Inr row"
    if "row \<in> set v" for row
  proof -
    have "length row = lw" and px: "\<forall>px\<in>set row. length px = lc"
      using assms that by (auto simp: image_shape_def list_all_iff)
    moreover have "mapM (broadcast_axis lc) row = Inr row"
      using px by (intro mapM_id) (simp add: broadcast_axis_same)
    ultimately show ?thesis by (simp add: broadcast_axis_same)
  qed
  have "mapM (\<lambda>row. case mapM (broadcast_axis lc) row of Inl e \<Rightarrow> Inl e
                      | Inr row' \<Rightarrow> broadcast_axis lw row') v = Inr v"
    using row by (intro mapM_id) simp
  moreover have "length v = lh" using assms by (simp add: image_shape_def)
  ultimately show ?thesis by (simp add: broadcast3_def broadcast_axis_same)
qed

lemma shape1_concat:
  assumes "image_shape a H W c" and "0 < H" and "0 < W"
  shows "shape1 (concat a) = c"
proof -
  obtain row rest where a: "a = row # rest" using assms(1,2) by (cases a) (auto simp: image_shape_def)
  then obtain px more where row: "row = px # more"
    using assms(1,3) by (cases row) (auto simp: image_shape_def)
  show ?thesis using assms(1) by (simp add: a row shape1_def image_shape_def)
qed

lemma slice_bound_nat: "k \<le> n \<Longrightarrow> slice_bound n (int k) = k"
  by (simp add: slice_bound_def)

lemma assign_block_nat:
  assumes a: "image_shape a H W c" and H: "0 < H" and W: "0 < W"
    and r: "r0 \<le> r1" "r1 \<le> H" and cc: "c0 \<le> c1" "c1 \<le> W"
    and v: "image_shape v (r1 - r0) (c1 - c0) c"
  shows "\<exists>out. assign_block a (int r0) (int r1) (int c0) (int c1) v = Inr out \<and>
           image_shape out H W c \<and>
           (\<forall>y<H. \<forall>x<W. out ! y ! x =
              (if r0 \<le> y \<and> y < r1 \<and> c0 \<le> x \<and> x < c1 then v ! (y - r0) ! (x - c0)
               else a ! y ! x))"
proof -
  let ?out = "map (\<lambda>i. if r0 \<le> i \<and> i < r1
                         then map (\<lambda>j. if c0 \<le> j \<and> j < c1 then v ! (i - r0) ! (j - c0)
                                       else a ! i ! j) [0..<length (a ! i)]
                         else a ! i) [0..<length a]"
  have l: "length a = H" using a by (rule image_shape_length)
  have s1: "shape1 a = W" using a H by (rule image_shape_shape1)
  have s2: "shape1 (concat a) = c" using a H W by (rule shape1_concat)
  have sb: "slice_bound H (int r0) = r0" "slice_bound H (int r1) = r1"
      "slice_bound W (int c0) = c0" "slice_bound W (int c1) = c1"
    using r cc by (simp_all add: slice_bound_nat)
  have eq: "assign_block a (int r0) (int r1) (int c0) (int c1) v = Inr ?out"
    by (simp add: assign_block_def Let_def l s1 s2 sb broadcast3_same [OF v])
  have rl: "length (a ! y) = W" if "y < H" for y using a that by (rule image_shape_row)
  have px: "?out ! y ! x = (if r0 \<le> y \<and> y < r1 \<and> c0 \<le> x \<and> x < c1 then v ! (y - r0) ! (x - c0)
               else a ! y ! x)" if "y < H" "x < W" for y x
    using that l rl by simp
  have sh: "image_shape ?out H W c"
  proof (rule image_shapeI)
    show "length ?out = H" using l by simp
  next
    fix y assume "y < H"
    then show "length (?out ! y) = W" using l rl by simp
  next
    fix y x assume yx: "y < H" "x < W"
    show "length (?out ! y ! x) = c"
    proof (cases "r0 \<le> y \<and> y < r1 \<and> c0 \<le> x \<and> x < c1")
      case True
      then have "y - r0 < r1 - r0" "x - c0 < c1 - c0" by auto
      then have "length (v ! (y - r0) ! (x - c0)) = c" using v by (intro image_shape_px)
      with True yx show ?thesis by (simp add: px)
    next
      case False
      have "?out ! y ! x = a ! y ! x" using False px [OF yx] by (simp only: if_False)
      then show ?thesis using image_shape_px [OF a yx] by simp
    qed
  qed
  show ?thesis using eq sh px by blast
qed

lemma block_rows:
  assumes "0 < (h::nat)"
  shows "(r * h + st \<le> y \<and> y < (r + 1) * h) = (y div h = r \<and> st \<le> y mod h)"
proof
  assume a: "r * h + st \<le> y \<and> y < (r + 1) * h"
  then have d: "y div h = r"
    by (intro div_nat_eqI) (simp_all add: mult.commute)
  have "y = r * h + y mod h" using d div_mult_mod_eq [of y h] by simp
  with a d show "y div h = r \<and> st \<le> y mod h" by linarith
next
  assume a: "y div h = r \<and> st \<le> y mod h"
  have y: "y = r * h + y mod h" using a div_mult_mod_eq [of y h] by simp
  have "y mod h < h" using assms by simp
  with a y show "r * h + st \<le> y \<and> y < (r + 1) * h" by (simp add: algebra_simps)
qed

lemma block_cols:
  assumes "0 < (h::nat)"
  shows "(c * h \<le> x \<and> x < (c + 1) * h) = (x div h = c)"
  using block_rows [OF assms, of c 0 x] by simp

lemma bar_start_le: "h div 2 + h div 4 + h div 8 \<le> (h::nat)"
  by linarith

lemma bar_offsets:
  "offset (int r) (int h) + half_texture (int h) + quarter_texture (int h)
     = int (r * h + (h div 2 + h div 4 + h div 8))"
  "offset (int r + 1) (int h) = int ((r + 1) * h)"
  "offset (int c) (int h) = int (c * h)"
  "half_texture (int h) + quarter_texture (int h) = int (h div 2 + h div 4 + h div 8)"
  by (simp_all add: offset_def half_texture_def quarter_texture_def zdiv_int distrib_right)

lemma getitem_nat: "k < length xs \<Longrightarrow> getitem xs (int k) = Inr (xs ! k)"
  by (simp add: getitem_def norm_index_def)

lemma drop_shape:
  assumes "image_shape sp h w c" and "k \<le> h"
  shows "image_shape (drop k sp) (h - k) w c"
  using assms by (auto simp: image_shape_def list_all_iff dest: in_set_dropD)

lemma draw_bar_step:
  assumes res: "atlas_shape res n h h ch" and n: "0 < n" and h: "0 < h"
    and img: "image_shape img (R * h) (C * h) ch" and bombs: "grid_shape bombs R C"
    and r: "r < R" and c: "c < C"
    and idx: "bombs ! r ! c \<noteq> 0 \<longrightarrow>
                - int n \<le> int K + bombs ! r ! c \<and> int K + bombs ! r ! c < int n"
  shows "\<exists>out. draw_bar res K bombs img (r, c) = Inr out \<and> image_shape out (R * h) (C * h) ch \<and>
           (\<forall>y<R * h. \<forall>x<C * h. out ! y ! x =
              (if bombs ! r ! c \<noteq> 0 \<and> y div h = r \<and> x div h = c \<and>
                  h div 2 + h div 4 + h div 8 \<le> y mod h
               then res ! atlas_index n (int K + bombs ! r ! c) ! (y mod h) ! (x mod h)
               else img ! y ! x))"
proof -
  let ?b = "bombs ! r ! c"
  let ?st = "h div 2 + h div 4 + h div 8"
  have gr: "getitem bombs (int r) = Inr (bombs ! r)"
    using bombs r by (intro getitem_nat) (simp add: grid_shape_def)
  have gc: "getitem (bombs ! r) (int c) = Inr ?b"
    using bombs r c by (intro getitem_nat) (simp add: grid_shape_def list_all_length)
  show ?thesis
  proof (cases "?b = 0")
    case True
    then have "draw_bar res K bombs img (r, c) = Inr img"
      by (simp add: draw_bar_def Let_def gr gc)
    with True img show ?thesis by simp
  next
    case False
    let ?k = "atlas_index n (int K + ?b)"
    let ?sp = "res ! ?k"
    have len: "length res = n" using res by (simp add: atlas_shape_def)
    have s1: "shape1 res = h" using res n by (rule shape1_atlas)
    have k: "?k < n" using idx False by (intro atlas_index_less) simp_all
    have sp: "image_shape ?sp h h ch" using res k by (rule atlas_sprite)
    have gb: "get_bomb res K ?b = Inr ?sp"
      using idx False getitem_index [of res "int K + ?b"] by (simp add: get_bomb_def len)
    have spl: "length ?sp = h" using sp by (rule image_shape_length)
    have st: "?st \<le> h" by (rule bar_start_le)
    let ?v = "drop ?st ?sp"
    have v: "image_shape ?v ((r + 1) * h - (r * h + ?st)) ((c + 1) * h - c * h) ch"
    proof -
      have "(r + 1) * h - (r * h + ?st) = h - ?st" "(c + 1) * h - c * h = h" by simp_all
      then show ?thesis using drop_shape [OF sp st] by simp
    qed
    have H: "0 < R * h" and W: "0 < C * h" using r c h by simp_all
    have b1: "r * h + ?st \<le> (r + 1) * h" using st by simp
    have b2: "(r + 1) * h \<le> R * h" using r by (intro mult_le_mono1) simp
    have b3: "c * h \<le> (c + 1) * h" by simp
    have b4: "(c + 1) * h \<le> C * h" using c by (intro mult_le_mono1) simp
    from assign_block_nat [OF img H W b1 b2 b3 b4 v]
    obtain out where out: "assign_block img (int (r * h + ?st)) (int ((r + 1) * h)) (int (c * h))
          (int ((c + 1) * h)) ?v = Inr out"
        "image_shape out (R * h) (C * h) ch"
        "\<forall>y<R * h. \<forall>x<C * h. out ! y ! x =
              (if r * h + ?st \<le> y \<and> y < (r + 1) * h \<and> c * h \<le> x \<and> x < (c + 1) * h
               then ?v ! (y - (r * h + ?st)) ! (x - c * h) else img ! y ! x)"
      by blast
    have a5: "slice_bound h (int ?st) = ?st" using st by (rule slice_bound_nat)
    have a1: "int (r * h) + half_texture (int h) + quarter_texture (int h) = int (r * h + ?st)"
      using bar_offsets(1) [of r h] by (simp only: bar_offsets(3))
    have eq: "draw_bar res K bombs img (r, c) = Inr out"
      by (simp only: draw_bar_def Let_def fst_conv snd_conv s1 gr gc sum.case False
          not_False_eq_True if_True gb spl bar_offsets a1 a5 out(1))
    have o3: "out ! y ! x =
              (if r * h + ?st \<le> y \<and> y < (r + 1) * h \<and> c * h \<le> x \<and> x < (c + 1) * h
               then ?v ! (y - (r * h + ?st)) ! (x - c * h) else img ! y ! x)"
      if "y < R * h" "x < C * h" for y x
      using out(3) that by blast
    have px: "out ! y ! x =
              (if ?b \<noteq> 0 \<and> y div h = r \<and> x div h = c \<and> ?st \<le> y mod h
               then ?sp ! (y mod h) ! (x mod h) else img ! y ! x)" if "y < R * h" "x < C * h" for y x
    proof (cases "y div h = r \<and> x div h = c \<and> ?st \<le> y mod h")
      case True
      then have blk: "r * h + ?st \<le> y \<and> y < (r + 1) * h \<and> c * h \<le> x \<and> x < (c + 1) * h"
        using block_rows [OF h, of r ?st y] block_cols [OF h, of c x] by simp
      have ym: "y mod h = y - r * h" and xm: "x mod h = x - c * h"
        using True div_mult_mod_eq [of y h] div_mult_mod_eq [of x h] by auto
      have mh: "y mod h < h" using h by simp
      have e1: "?st + (y - (r * h + ?st)) = y mod h" using blk ym by linarith
      have "?v ! (y - (r * h + ?st)) = ?sp ! (?st + (y - (r * h + ?st)))"
        using mh e1 spl by (intro nth_drop) simp
      then have "?v ! (y - (r * h + ?st)) ! (x - c * h) = ?sp ! (y mod h) ! (x mod h)"
        by (simp only: e1 xm)
      moreover have "out ! y ! x = ?v ! (y - (r * h + ?st)) ! (x - c * h)"
        by (simp only: o3 [OF that] if_P [OF blk])
      ultimately show ?thesis using True False by simp
    next
      case F: False
      then have nb: "\<not> (r * h + ?st \<le> y \<and> y < (r + 1) * h \<and> c * h \<le> x \<and> x < (c + 1) * h)"
        using block_rows [OF h, of r ?st y] block_cols [OF h, of c x] by blast
      have "out ! y ! x = img ! y ! x"
        by (simp only: o3 [OF that] if_not_P [OF nb])
      with F show ?thesis by auto
    qed
    show ?thesis using eq out(2) px by blast
  qed
qed

lemma foldM_draw_bar:
  assumes res: "atlas_shape res n h h ch" and n: "0 < n" and h: "0 < h"
    and bombs: "grid_shape bombs R C"
    and cells: "\<forall>p\<in>set ps. fst p < R \<and> snd p < C \<and>
                  (bombs ! fst p ! snd p \<noteq> 0 \<longrightarrow>
                     - int n \<le> int K + bombs ! fst p ! snd p \<and> int K + bombs ! fst p ! snd p < int n)"
    and img: "image_shape img (R * h) (C * h) ch"
  shows "\<exists>out. foldM (draw_bar res K bombs) img ps = Inr out \<and> image_shape out (R * h) (C * h) ch \<and>
           (\<forall>y<R * h. \<forall>x<C * h. out ! y ! x =
              (if (y div h, x div h) \<in> set ps \<and> bombs ! (y div h) ! (x div h) \<noteq> 0 \<and>
                  h div 2 + h div 4 + h div 8 \<le> y mod h
               then res ! atlas_index n (int K + bombs ! (y div h) ! (x div h)) ! (y mod h) ! (x mod h)
               else img ! y ! x))"
  using cells img
proof (induction ps arbitrary: img)
  case Nil
  then show ?case by simp
next
  case (Cons p ps)
  obtain r c where p: "p = (r, c)" by (cases p)
  have rc: "r < R" "c < C"
    "bombs ! r ! c \<noteq> 0 \<longrightarrow> - int n \<le> int K + bombs ! r ! c \<and> int K + bombs ! r ! c < int n"
    using Cons.prems(1) p by auto
  from draw_bar_step [OF res n h Cons.prems(2) bombs rc]
  obtain img1 where s: "draw_bar res K bombs img (r, c) = Inr img1"
      "image_shape img1 (R * h) (C * h) ch"
    and s3: "\<And>y x. y < R * h \<Longrightarrow> x < C * h \<Longrightarrow> img1 ! y ! x =
              (if bombs ! r ! c \<noteq> 0 \<and> y div h = r \<and> x div h = c \<and>
                  h div 2 + h div 4 + h div 8 \<le> y mod h
               then res ! atlas_index n (int K + bombs ! r ! c) ! (y mod h) ! (x mod h)
               else img ! y ! x)"
    by blast
  have rest: "\<forall>p\<in>set ps. fst p < R \<and> snd p < C \<and>
                  (bombs ! fst p ! snd p \<noteq> 0 \<longrightarrow>
                     - int n \<le> int K + bombs ! fst p ! snd p \<and> int K + bombs ! fst p ! snd p < int n)"
    using Cons.prems(1) by simp
  from Cons.IH [OF rest s(2)]
  obtain out where o: "foldM (draw_bar res K bombs) img1 ps = Inr out"
      "image_shape out (R * h) (C * h) ch"
    and o3: "\<And>y x. y < R * h \<Longrightarrow> x < C * h \<Longrightarrow> out ! y ! x =
              (if (y div h, x div h) \<in> set ps \<and> bombs ! (y div h) ! (x div h) \<noteq> 0 \<and>
                  h div 2 + h div 4 + h div 8 \<le> y mod h
               then res ! atlas_index n (int K + bombs ! (y div h) ! (x div h)) ! (y mod h) ! (x mod h)
               else img1 ! y ! x)"
    by blast
  have eq: "foldM (draw_bar res K bombs) img (p # ps) = Inr out"
    using s(1) o(1) p by simp
  have px: "out ! y ! x =
              (if (y div h, x div h) \<in> set (p # ps) \<and> bombs ! (y div h) ! (x div h) \<noteq> 0 \<and>
                  h div 2 + h div 4 + h div 8 \<le> y mod h
               then res ! atlas_index n (int K + bombs ! (y div h) ! (x div h)) ! (y mod h) ! (x mod h)
               else img ! y ! x)" if "y < R * h" "x < C * h" for y x
    using o3 [OF that] s3 [OF that] p by auto
  show ?case using eq o(2) px by blast
qed

lemma set_where_agent:
  "set (where_agent pp) = {(r, c). r < length pp \<and> c < length (pp ! r) \<and> has_players (pp ! r ! c)}"
  by (auto simp: where_agent_def)

lemma postprocess_pixels:
  assumes res: "atlas_shape res n h h ch" and n: "0 < n" and h: "0 < h"
    and img: "image_shape img (R * h) (C * h) ch"
    and pp: "grid_shape pp R C" and bombs: "grid_shape bombs R C"
    and idx: "\<forall>r<R. \<forall>c<C. has_players (pp ! r ! c) \<and> bombs ! r ! c \<noteq> 0 \<longrightarrow>
                - int n \<le> int K + bombs ! r ! c \<and> int K + bombs ! r ! c < int n"
  shows "\<exists>out. postprocess_board img res K bombs pp = Inr out \<and> image_shape out (R * h) (C * h) ch \<and>
           (\<forall>r<R. \<forall>c<C. \<forall>i<h. \<forall>j<h. out ! (r * h + i) ! (c * h + j) =
              (if has_players (pp ! r ! c) \<and> bombs ! r ! c \<noteq> 0 \<and>
                  h div 2 + h div 4 + h div 8 \<le> i
               then res ! atlas_index n (int K + bombs ! r ! c) ! i ! j
               else img ! (r * h + i) ! (c * h + j)))"
proof -
  have s1: "shape1 res = h" using res n by (rule shape1_atlas)
  have mem: "(p \<in> set (where_agent pp)) = (fst p < R \<and> snd p < C \<and> has_players (pp ! fst p ! snd p))" for p
  proof -
    have "length pp = R" using pp by (simp add: grid_shape_def)
    moreover have "fst p < R \<Longrightarrow> length (pp ! fst p) = C"
      using pp by (rule grid_shape_row)
    ultimately show ?thesis by (cases p) (auto simp: set_where_agent)
  qed
  have cells: "\<forall>p\<in>set (where_agent pp). fst p < R \<and> snd p < C \<and>
                  (bombs ! fst p ! snd p \<noteq> 0 \<longrightarrow>
                     - int n \<le> int K + bombs ! fst p ! snd p \<and> int K + bombs ! fst p ! snd p < int n)"
    using idx by (simp add: mem)
  from foldM_draw_bar [OF res n h bombs cells img]
  obtain out where o: "foldM (draw_bar res K bombs) img (where_agent pp) = Inr out"
      "image_shape out (R * h) (C * h) ch"
    and o3: "\<And>y x. y < R * h \<Longrightarrow> x < C * h \<Longrightarrow> out ! y ! x =
              (if (y div h, x div h) \<in> set (where_agent pp) \<and> bombs ! (y div h) ! (x div h) \<noteq> 0 \<and>
                  h div 2 + h div 4 + h div 8 \<le> y mod h
               then res ! atlas_index n (int K + bombs ! (y div h) ! (x div h)) ! (y mod h) ! (x mod h)
               else img ! y ! x)"
    by blast
  have eq: "postprocess_board img res K bombs pp = Inr out"
    using o(1) h by (simp add: postprocess_board_def s1)
  have px: "out ! (r * h + i) ! (c * h + j) =
              (if has_players (pp ! r ! c) \<and> bombs ! r ! c \<noteq> 0 \<and>
                  h div 2 + h div 4 + h div 8 \<le> i
               then res ! atlas_index n (int K + bombs ! r ! c) ! i ! j
               else img ! (r * h + i) ! (c * h + j))"
    if "r < R" "c < C" "i < h" "j < h" for r c i j
  proof -
    have y: "r * h + i < R * h"
    proof -
      have "r * h + i < (r + 1) * h" using that(3) by simp
      also have "\<dots> \<le> R * h" using that(1) by (intro mult_le_mono1) simp
      finally show ?thesis .
    qed
    have x: "c * h + j < C * h"
    proof -
      have "c * h + j < (c + 1) * h" using that(4) by simp
      also have "\<dots> \<le> C * h" using that(2) by (intro mult_le_mono1) simp
      finally show ?thesis .
    qed
    have d: "(r * h + i) div h = r" "(r * h + i) mod h = i" "(c * h + j) div h = c" "(c * h + j) mod h = j"
      using that(3,4) by simp_all
    have "out ! (r * h + i) ! (c * h + j) =
              (if (r, c) \<in> set (where_agent pp) \<and> bombs ! r ! c \<noteq> 0 \<and>
                  h div 2 + h div 4 + h div 8 \<le> i
               then res ! atlas_index n (int K + bombs ! r ! c) ! i ! j
               else img ! (r * h + i) ! (c * h + j))"
      using o3 [OF y x] by (simp only: d)
    moreover have "((r, c) \<in> set (where_agent pp)) = has_players (pp ! r ! c)"
      using that(1,2) by (simp add: mem)
    ultimately show ?thesis by simp
  qed
  show ?thesis using eq o(2) px by blast
qed

lemma numbered_atlas_nth:
  "k < n \<Longrightarrow> i < h \<Longrightarrow> j < h \<Longrightarrow> numbered_atlas n h ! k ! i ! j = [of_nat k, of_nat k, of_nat k]"
  by (simp add: numbered_atlas_def)

lemma bar_example:
  "\<exists>out. postprocess_board (replicate 8 (replicate 8 [10, 10, 10])) (numbered_atlas 25 8) 14 [[3]] [[10]]
           = Inr out \<and> image_shape out 8 8 3 \<and>
         (\<forall>i<8. \<forall>j<8. out ! i ! j = (if 7 \<le> i then [17, 17, 17] else [10, 10, 10]))"
proof -
  let ?img = "replicate 8 (replicate 8 [10, 10, 10 :: 8 word])"
  have img: "image_shape ?img (1 * 8) (1 * 8) 3"
    by (simp add: image_shape_def list_all_iff)
  have pp: "grid_shape [[10 :: int]] 1 1" and bombs: "grid_shape [[3 :: int]] 1 1"
    by (simp_all add: grid_shape_def)
  have idx: "\<forall>r<1. \<forall>c<1. has_players ([[10]] ! r ! c) \<and> [[3]] ! r ! c \<noteq> (0::int) \<longrightarrow>
                - int 25 \<le> int 14 + [[3]] ! r ! c \<and> int 14 + [[3]] ! r ! c < int 25"
    by simp
  from postprocess_pixels [OF numbered_atlas_shape _ _ img pp bombs idx]
  obtain out where o: "postprocess_board ?img (numbered_atlas 25 8) 14 [[3]] [[10]] = Inr out"
      "image_shape out (1 * 8) (1 * 8) 3"
    and o3: "\<And>r c i j. r < 1 \<Longrightarrow> c < 1 \<Longrightarrow> i < 8 \<Longrightarrow> j < 8 \<Longrightarrow> out ! (r * 8 + i) ! (c * 8 + j) =
              (if has_players ([[10]] ! r ! c) \<and> [[3]] ! r ! c \<noteq> (0::int) \<and>
                  8 div 2 + 8 div 4 + 8 div 8 \<le> i
               then numbered_atlas 25 8 ! atlas_index 25 (int 14 + [[3]] ! r ! c) ! i ! j
               else ?img ! (r * 8 + i) ! (c * 8 + j))"
    by auto
  have ai: "atlas_index 25 17 = 17" by (simp add: atlas_index_def)
  have sp: "numbered_atlas 25 8 ! 17 ! i ! j = [17, 17, 17]" if "i < 8" "j < 8" for i j
    using numbered_atlas_nth [of 17 25 i 8 j] that by simp
  have px: "out ! i ! j = (if 7 \<le> i then [17, 17, 17] else [10, 10, 10])" if "i < 8" "j < 8" for i j
    using o3 [of 0 0 i j] that by (simp add: has_players_def ai sp)
  show ?thesis using o px by simp
qed

text \<open>
  Claim C2, as the code has it. For an atlas of square sprites of edge \<open>h\<close>, a rendered
  board of the shape of the coded grid and countdowns that select sprites of the atlas,
  \<open>postprocess_board\<close> overwrites, in the pixel block of every player cell with a
  nonzero countdown, the rows from \<open>h div 2 + h div 4 + h div 8\<close> to the bottom of the
  block (the lowest eighth of the block when \<open>h\<close> is a multiple of 8) with the same
  rows of the countdown sprite \<open>res[K + countdown]\<close>, and leaves every other pixel of the
  rendered board as it was.
\<close>

theorem postprocess_board_bar:
  assumes "atlas_shape res n h h ch" and "0 < n" and "0 < h"
    and "image_shape img (R * h) (C * h) ch"
    and "grid_shape pp R C" and "grid_shape bombs R C"
    and "\<forall>r<R. \<forall>c<C. has_players (pp ! r ! c) \<and> bombs ! r ! c \<noteq> 0 \<longrightarrow>
           - int n \<le> int K + bombs ! r ! c \<and> int K + bombs ! r ! c < int n"
  shows "\<exists>out. postprocess_board img res K bombs pp = Inr out \<and> image_shape out (R * h) (C * h) ch \<and>
           (\<forall>r<R. \<forall>c<C. \<forall>i<h. \<forall>j<h. out ! (r * h + i) ! (c * h + j) =
              (if has_players (pp ! r ! c) \<and> bombs ! r ! c \<noteq> 0 \<and>
                  h div 2 + h div 4 + h div 8 \<le> i
               then res ! atlas_index n (int K + bombs ! r ! c) ! i ! j
               else img ! (r * h + i) ! (c * h + j)))"
  using assms by (rule postprocess_pixels)

theorem postprocess_board_bar_witness:
  "\<exists>out. postprocess_board (replicate 8 (replicate 8 [10, 10, 10])) (numbered_atlas 25 8) 14 [[3]] [[10]]
           = Inr out \<and>
         out ! 6 ! 0 = [10, 10, 10] \<and> out ! 7 ! 0 = [17, 17, 17] \<and> out ! 7 ! 7 = [17, 17, 17]"
proof -
  let ?img = "replicate 8 (replicate 8 [10, 10, 10 :: 8 word])"
  have img: "image_shape ?img (1 * 8) (1 * 8) 3"
    by (simp add: image_shape_def list_all_iff)
  have pp: "grid_shape [[10 :: int]] 1 1" and bombs: "grid_shape [[3 :: int]] 1 1"
    by (simp_all add: grid_shape_def)
  have idx: "\<forall>r<1. \<forall>c<1. has_players ([[10]] ! r ! c) \<and> [[3]] ! r ! c \<noteq> (0::int) \<longrightarrow>
                - int 25 \<le> int 14 + [[3]] ! r ! c \<and> int 14 + [[3]] ! r ! c < int 25"
    by simp
  from postprocess_board_bar [OF numbered_atlas_shape _ _ img pp bombs idx]
  obtain out where o: "postprocess_board ?img (numbered_atlas 25 8) 14 [[3]] [[10]] = Inr out"
    and o3: "\<And>r c i j. r < 1 \<Longrightarrow> c < 1 \<Longrightarrow> i < 8 \<Longrightarrow> j < 8 \<Longrightarrow> out ! (r * 8 + i) ! (c * 8 + j) =
              (if has_players ([[10]] ! r ! c) \<and> [[3]] ! r ! c \<noteq> (0::int) \<and>
                  8 div 2 + 8 div 4 + 8 div 8 \<le> i
               then numbered_atlas 25 8 ! atlas_index 25 (int 14 + [[3]] ! r ! c) ! i ! j
               else ?img ! (r * 8 + i) ! (c * 8 + j))"
    by auto
  have ai: "atlas_index 25 17 = 17" by (simp add: atlas_index_def)
  have sp: "numbered_atlas 25 8 ! 17 ! i ! j = [17, 17, 17]" if "i < 8" "j < 8" for i j
    using numbered_atlas_nth [of 17 25 i 8 j] that by simp
  have px: "out ! i ! j = (if 7 \<le> i then [17, 17, 17] else [10, 10, 10])" if "i < 8" "j < 8" for i j
    using o3 [of 0 0 i j] that by (simp add: has_players_def ai sp)
  show ?thesis using o px [of 6 0] px [of 7 0] px [of 7 7] by simp
qed

text \<open>The claim as the spec words it fails for sprites of edge 8: of the three lowest
  pixel rows of the block, the lower 37.5 percent, only the last one is overwritten.\<close>

theorem postprocess_board_lower_counterexample:
  "postprocess_board (replicate 8 (replicate 8 [10, 10, 10])) (numbered_atlas 25 8) 14 [[3]] [[10]]
     = Inr (replicate 7 (replicate 8 [10, 10, 10]) @ [replicate 8 [17, 17, 17]])"
proof -
  from bar_example obtain out where
    o: "postprocess_board (replicate 8 (replicate 8 [10, 10, 10])) (numbered_atlas 25 8) 14 [[3]] [[10]]
           = Inr out" "image_shape out 8 8 3"
    and px: "\<And>i j. i < 8 \<Longrightarrow> j < 8 \<Longrightarrow> out ! i ! j = (if 7 \<le> i then [17, 17, 17] else [10, 10, 10])"
    by blast
  let ?e = "replicate 7 (replicate 8 [10, 10, 10 :: 8 word]) @ [replicate 8 [17, 17, 17]]"
  have "out = ?e"
  proof (rule nth_equalityI)
    show "length out = length ?e" using o(2) by (simp add: image_shape_length)
  next
    fix i assume "i < length out"
    then have i: "i < 8" using o(2) by (simp add: image_shape_length)
    show "out ! i = ?e ! i"
    proof (rule nth_equalityI)
      show "length (out ! i) = length (?e ! i)"
        using image_shape_row [OF o(2) i] i by (simp add: nth_append)
    next
      fix j assume "j < length (out ! i)"
      then have j: "j < 8" using image_shape_row [OF o(2) i] by simp
      show "out ! i ! j = ?e ! i ! j"
        using px [OF i j] i j by (auto simp: nth_append)
    qed
  qed
  with o(1) show ?thesis by simp
qed

end
